theory Spec2Isabelle
  imports Main
begin

section \<open>Strings\<close>

text \<open>
  Python text is modelled by HOL strings. Identifiers, file types, host names and URLs
  of the program are ASCII; \<open>upper\<close> and \<open>lower\<close> are modelled on the ASCII
  letters and leave every other character as it is. Bytes (\<open>response.content\<close>)
  are strings as well: a HOL character is one byte.
\<close>

definition newline :: char where
  "newline = CHR 0x0A"

definition slash :: char where
  "slash = CHR ''/''"

text \<open>\<open>s.split(d)\<close> for a one-character separator: always at least one piece.\<close>

primrec split_on :: "char \<Rightarrow> string \<Rightarrow> string list" where
  "split_on d [] = [[]]"
| "split_on d (c # cs) =
     (if c = d then [] # split_on d cs
      else (c # hd (split_on d cs)) # tl (split_on d cs))"

definition ascii_lowercase :: string where
  "ascii_lowercase = ''abcdefghijklmnopqrstuvwxyz''"

definition ascii_uppercase :: string where
  "ascii_uppercase = ''ABCDEFGHIJKLMNOPQRSTUVWXYZ''"

definition char_upper :: "char \<Rightarrow> char" where
  "char_upper c =
     (case map_of (zip ascii_lowercase ascii_uppercase) c of Some u \<Rightarrow> u | None \<Rightarrow> c)"

definition char_lower :: "char \<Rightarrow> char" where
  "char_lower c =
     (case map_of (zip ascii_uppercase ascii_lowercase) c of Some l \<Rightarrow> l | None \<Rightarrow> c)"

definition str_upper :: "string \<Rightarrow> string" where
  "str_upper s = map char_upper s"

definition str_lower :: "string \<Rightarrow> string" where
  "str_lower s = map char_lower s"

section \<open>Module constants\<close>

text \<open>Lines 31-41 of getpdb.py. A dict keeps its insertion order, so the registry is
  an association list; its keys are pairwise different.\<close>

definition FILE_DEFAULT_SMALL :: string where
  "FILE_DEFAULT_SMALL = ''sdf''"

definition FILE_DEFAULT_LARGE :: string where
  "FILE_DEFAULT_LARGE = ''cif''"

definition DATABASE_HOSTS :: "(string \<times> string list) list" where
  "DATABASE_HOSTS =
     [(''rcsb'', [''pdb'', ''cif'', ''bcif'', ''xml'']),
      (''rcsb-ligand'', [''cif'', ''sdf'', ''mol2'']),
      (''pubchem'', [''sdf'', ''json'', ''xml'', ''asnt'']),
      (''alphafold'', [''cif'', ''bcif'', ''pdb''])]"

section \<open>The world outside the program\<close>

text \<open>
  The HTTP library, gzip, the file system and logging are not code of the program. The
  network is a parameter: for each URL and verify flag, what \<open>requests.get\<close> does.
  A response carries the fields the program reads: \<open>status_code\<close> (through
  \<open>raise_for_status\<close>), \<open>content\<close>, \<open>text\<close> and the value of
  \<open>json()\<close> (\<open>None\<close> when the body is not JSON).
\<close>

datatype json =
    JNull
  | JBool bool
  | JNum int
  | JStr string
  | JArr "json list"
  | JObj "(string \<times> json) list"

record response =
  resp_status_code :: nat
  resp_content :: string
  resp_text :: string
  resp_json :: "json option"

datatype get_result = Get_raises string | Get_returns response

text \<open>The exceptions the program can meet; all of them are subclasses of
  \<open>Exception\<close>. \<open>Invalid_file_type\<close> is raised at line 105 and
  \<open>Unknown_host\<close> at line 112; the others come from the libraries.\<close>

datatype exn =
    RequestException string
  | HTTPError nat
  | BadGzipFile
  | UnicodeDecodeError
  | JSONDecodeError
  | IndexError
  | KeyError
  | TypeError
  | Invalid_file_type string
  | Unknown_host string
  | FileNotFoundError
  | NotADirectoryError
  | IsADirectoryError
  | FileExistsError
  | OSError

text \<open>
  The file system maps a path, as the list of its components, to a directory or to a
  regular file with its content. The working directory is the empty list and the root
  is \<open>[''/'']\<close>; both are always directories. Symbolic links, \<open>..\<close>,
  and permissions are not modelled; a fault the model does not describe (permission
  denied, disk full) is a parameter, \<open>fs_fault\<close>, asked at each call of
  \<open>os.makedirs\<close> and \<open>open\<close> and each time text is written to a file.
  Text printed to a file is buffered: \<open>early_flush\<close> is the buffering policy of
  the library, the number of pending characters it hands to the file at a print (none
  while the buffer has room).
\<close>

datatype node = Dir | File string

type_synonym filesys = "string list \<Rightarrow> node option"

datatype fs_op =
    Op_makedirs string
  | Op_open string
  | Op_print string string
  | Op_write string string

record env =
  http_get :: "string \<Rightarrow> bool \<Rightarrow> get_result"
  gzip_decompress :: "string \<Rightarrow> string option"
  str_of_json :: "json \<Rightarrow> string"
  fs_fault :: "fs_op \<Rightarrow> filesys \<Rightarrow> bool"
  early_flush :: "string \<Rightarrow> nat"

text \<open>
  What the program does to the outside is recorded in order: each call of a logging
  function (whatever the configured level), each call of \<open>requests.get\<close> (with
  the host whose branch of \<open>_getpdb\<close> made it, its URL and its verify flag) and
  each call of \<open>os.makedirs\<close>, \<open>open\<close> and \<open>print\<close>.
\<close>

datatype level = INFO | WARNING | ERROR

datatype message =
    Fetching_from string
  | Host_unsupported string string
  | Exc exn
  | Could_not_fetch string string
  | Writing_output string
  | Finished

datatype event =
    Log level message
  | Request string string bool
  | Call fs_op

text \<open>An open file object: the name it was opened with and the text printed to it
  that has not reached the file yet. The state lists the names of the files that are
  open.\<close>

record handle =
  h_name :: string
  h_pending :: string

record state =
  trace :: "event list"
  files :: filesys
  open_handles :: "string list"
  log_level :: level

definition emit :: "event list \<Rightarrow> state \<Rightarrow> state" where
  "emit evs st = st\<lparr>trace := trace st @ evs\<rparr>"

subsection \<open>Library functions the program calls\<close>

text \<open>\<open>bytes.decode("ascii")\<close> raises on a byte above 127.\<close>

definition decode_ascii :: "string \<Rightarrow> exn + string" where
  "decode_ascii bs =
     (if list_all (\<lambda>c. (of_char c :: nat) < 128) bs then Inr bs else Inl UnicodeDecodeError)"

text \<open>\<open>j[0]\<close> and \<open>j[key]\<close> on a value parsed from JSON.\<close>

definition json_index0 :: "json \<Rightarrow> exn + json" where
  "json_index0 j =
     (case j of
        JArr xs \<Rightarrow> (case xs of [] \<Rightarrow> Inl IndexError | x # _ \<Rightarrow> Inr x)
      | JStr cs \<Rightarrow> (case cs of [] \<Rightarrow> Inl IndexError | c # _ \<Rightarrow> Inr (JStr [c]))
      | JObj kvs \<Rightarrow> Inl KeyError
      | _ \<Rightarrow> Inl TypeError)"

definition json_getitem :: "json \<Rightarrow> string \<Rightarrow> exn + json" where
  "json_getitem j k =
     (case j of
        JObj kvs \<Rightarrow> (case map_of kvs k of None \<Rightarrow> Inl KeyError | Some v \<Rightarrow> Inr v)
      | _ \<Rightarrow> Inl TypeError)"

text \<open>A URL taken from JSON: \<open>requests.get\<close> and the f-string both use
  \<open>str(url)\<close>, which is the string itself for a JSON string.\<close>

definition url_str :: "env \<Rightarrow> json \<Rightarrow> string" where
  "url_str env v = (case v of JStr s \<Rightarrow> s | _ \<Rightarrow> str_of_json env v)"

text \<open>\<open>os.path.join(a, b)\<close> of posixpath.\<close>

definition os_path_join :: "string \<Rightarrow> string \<Rightarrow> string" where
  "os_path_join a b =
     (if b \<noteq> [] \<and> hd b = slash then b
      else if a = [] \<or> last a = slash then a @ b
      else a @ [slash] @ b)"

definition components :: "string \<Rightarrow> string list" where
  "components p =
     (if p \<noteq> [] \<and> hd p = slash then [''/''] else []) @
     filter (\<lambda>c. c \<noteq> [] \<and> c \<noteq> ''.'') (split_on slash p)"

definition node_at :: "filesys \<Rightarrow> string list \<Rightarrow> node option" where
  "node_at fs q = (if q = [] \<or> q = [''/''] then Some Dir else fs q)"

text \<open>\<open>os.makedirs(name, exist_ok=True)\<close>: every missing directory on the way
  is created; a regular file on the way is an error.\<close>

fun mkdirs :: "filesys \<Rightarrow> string list \<Rightarrow> string list \<Rightarrow> exn + filesys" where
  "mkdirs fs pre [] = Inr fs"
| "mkdirs fs pre (c # cs) =
     (case node_at fs (pre @ [c]) of
        None \<Rightarrow> mkdirs (fs(pre @ [c] \<mapsto> Dir)) (pre @ [c]) cs
      | Some Dir \<Rightarrow> mkdirs fs (pre @ [c]) cs
      | Some (File _) \<Rightarrow> Inl (if cs = [] then FileExistsError else NotADirectoryError))"

definition os_makedirs :: "env \<Rightarrow> string \<Rightarrow> state \<Rightarrow> (exn + unit) \<times> state" where
  "os_makedirs env p st =
     (let st1 = emit [Call (Op_makedirs p)] st in
      if p = [] then (Inl FileNotFoundError, st1)
      else if fs_fault env (Op_makedirs p) (files st) then (Inl OSError, st1)
      else (case mkdirs (files st) [] (components p) of
              Inl e \<Rightarrow> (Inl e, st1)
            | Inr fs \<Rightarrow> (Inr (), st1\<lparr>files := fs\<rparr>)))"

text \<open>\<open>open(name, "w")\<close>: every directory on the way must exist; the file is
  created, or emptied when it exists, and the file object is returned with nothing
  pending.\<close>

fun first_not_dir :: "filesys \<Rightarrow> string list \<Rightarrow> string list \<Rightarrow> exn option" where
  "first_not_dir fs pre [] = None"
| "first_not_dir fs pre (c # cs) =
     (case node_at fs (pre @ [c]) of
        None \<Rightarrow> Some FileNotFoundError
      | Some (File _) \<Rightarrow> Some NotADirectoryError
      | Some Dir \<Rightarrow> first_not_dir fs (pre @ [c]) cs)"

definition open_w :: "filesys \<Rightarrow> string list \<Rightarrow> exn + filesys" where
  "open_w fs q =
     (case first_not_dir fs [] (butlast q) of
        Some e \<Rightarrow> Inl e
      | None \<Rightarrow>
          (case node_at fs q of
             Some Dir \<Rightarrow> Inl IsADirectoryError
           | _ \<Rightarrow> Inr (fs(q \<mapsto> File []))))"

definition py_open_w :: "env \<Rightarrow> string \<Rightarrow> state \<Rightarrow> (exn + handle) \<times> state" where
  "py_open_w env name st =
     (let st1 = emit [Call (Op_open name)] st in
      if fs_fault env (Op_open name) (files st) then (Inl OSError, st1)
      else (case open_w (files st) (components name) of
              Inl e \<Rightarrow> (Inl e, st1)
            | Inr fs \<Rightarrow>
                (Inr \<lparr>h_name = name, h_pending = []\<rparr>,
                 st1\<lparr>files := fs, open_handles := open_handles st @ [name]\<rparr>)))"

text \<open>The library writes text to the file of a file object: it is appended to the
  content, unless the write fails.\<close>

definition file_write :: "env \<Rightarrow> string \<Rightarrow> string \<Rightarrow> state \<Rightarrow> (exn + unit) \<times> state" where
  "file_write env name chunk st =
     (if fs_fault env (Op_write name chunk) (files st) then (Inl OSError, st)
      else (case node_at (files st) (components name) of
              Some (File c) \<Rightarrow>
                (Inr (), st\<lparr>files := (files st)(components name \<mapsto> File (c @ chunk))\<rparr>)
            | _ \<Rightarrow> (Inl OSError, st)))"

text \<open>\<open>print(line, file=handle)\<close>: the line and one newline join the pending
  text; what the buffering policy hands on is written to the file, and only that write
  can fail.\<close>

definition py_print ::
  "env \<Rightarrow> handle \<Rightarrow> string \<Rightarrow> state \<Rightarrow> (exn + unit) \<times> handle \<times> state" where
  "py_print env h line st =
     (let st1 = emit [Call (Op_print (h_name h) line)] st;
          pending = h_pending h @ line @ [newline];
          k = early_flush env pending
      in if k = 0 then (Inr (), h\<lparr>h_pending := pending\<rparr>, st1)
         else (case file_write env (h_name h) (take k pending) st1 of
                 (Inl e, st2) \<Rightarrow> (Inl e, h\<lparr>h_pending := pending\<rparr>, st2)
               | (Inr _, st2) \<Rightarrow> (Inr (), h\<lparr>h_pending := drop k pending\<rparr>, st2)))"

text \<open>
  A file object that is never closed by the program is closed by the interpreter when
  the last reference to it goes away; for a local variable of a function that is when
  the function returns (CPython counts references). The pending text is written then;
  a failure of that write is not raised (the interpreter reports and ignores it) and
  the text is lost. The file is closed either way.
\<close>

definition close_handle :: "string \<Rightarrow> string list \<Rightarrow> string list" where
  "close_handle name hs = rev (remove1 name (rev hs))"

definition release_handle :: "env \<Rightarrow> handle option \<Rightarrow> state \<Rightarrow> state" where
  "release_handle env ho st =
     (case ho of
        None \<Rightarrow> st
      | Some h \<Rightarrow>
          (let st1 = (if h_pending h = [] then st
                      else snd (file_write env (h_name h) (h_pending h) st))
           in st1\<lparr>open_handles := close_handle (h_name h) (open_handles st1)\<rparr>))"

section \<open>_getpdb: one host\<close>

text \<open>
  The three statements every branch repeats (lines 65-67, 78-80, 86-88, 94-96 and
  106-108): \<open>logging.info\<close>, \<open>requests.get(url, verify=verify)\<close> and
  \<open>response.raise_for_status()\<close>, which raises for a status from 400 to 599.
\<close>

definition get_checked ::
  "env \<Rightarrow> string \<Rightarrow> string \<Rightarrow> bool \<Rightarrow> (exn + response) \<times> event list" where
  "get_checked env host url verify =
     ((case http_get env url verify of
         Get_raises m \<Rightarrow> Inl (RequestException m)
       | Get_returns r \<Rightarrow>
           if 400 \<le> resp_status_code r \<and> resp_status_code r < 600
           then Inl (HTTPError (resp_status_code r)) else Inr r),
      [Log INFO (Fetching_from url), Request host url verify])"

definition rcsb_url :: "string \<Rightarrow> string \<Rightarrow> string" where
  "rcsb_url code ftype =
     ''https://files.rcsb.org/download/'' @ str_upper code @ ''.'' @ str_lower ftype @ ''.gz''"

definition rcsb_ligand_url :: "string \<Rightarrow> string \<Rightarrow> string" where
  "rcsb_ligand_url code ftype =
     (if str_lower ftype \<in> set [''sdf'', ''mol2''] then
        ''https://files.rcsb.org/ligands/download/'' @ str_upper code @ ''_ideal.'' @ str_lower ftype
      else
        ''https://files.rcsb.org/ligands/download/'' @ str_upper code @ ''.'' @ str_lower ftype)"

definition pubchem_url :: "string \<Rightarrow> string \<Rightarrow> string" where
  "pubchem_url code ftype =
     ''https://pubchem.ncbi.nlm.nih.gov/rest/pug/compound/CID/'' @ code @ ''/record/'' @
     str_upper ftype @ ''?record_type=3d''"

definition alphafold_api_url :: "string \<Rightarrow> string" where
  "alphafold_api_url code = ''https://alphafold.ebi.ac.uk/api/prediction/'' @ str_upper code"

text \<open>Line 68: \<open>gzip.decompress(response.content).decode("ascii")\<close>.\<close>

definition gunzip_ascii :: "env \<Rightarrow> string \<Rightarrow> exn + string" where
  "gunzip_ascii env bytes =
     (case gzip_decompress env bytes of
        None \<Rightarrow> Inl BadGzipFile
      | Some raw \<Rightarrow> decode_ascii raw)"

text \<open>Lines 97-105: the URL of the file in the first entry of the prediction.\<close>

definition alphafold_file_url :: "env \<Rightarrow> response \<Rightarrow> string \<Rightarrow> exn + string" where
  "alphafold_file_url env response ftype =
     (case resp_json response of
        None \<Rightarrow> Inl JSONDecodeError
      | Some j \<Rightarrow>
          (case json_index0 j of
             Inl e \<Rightarrow> Inl e
           | Inr meta \<Rightarrow>
               (case (if str_lower ftype = ''cif'' then json_getitem meta ''cifUrl''
                      else if str_lower ftype = ''bcif'' then json_getitem meta ''bcifUrl''
                      else if str_lower ftype = ''pdb'' then json_getitem meta ''pdbUrl''
                      else Inl (Invalid_file_type ftype)) of
                  Inl e \<Rightarrow> Inl e
                | Inr v \<Rightarrow> Inr (url_str env v))))"

text \<open>\<open>_getpdb(code, type, host, verify)\<close>, lines 60-114: the data or the
  exception raised, and what the call did on the way.\<close>

definition priv_getpdb ::
  "env \<Rightarrow> string \<Rightarrow> string \<Rightarrow> string \<Rightarrow> bool \<Rightarrow> (exn + string list) \<times> event list" where
  "priv_getpdb env code ftype host verify =
     (if str_lower host = ''rcsb'' then
        (case get_checked env host (rcsb_url code ftype) verify of
           (Inl e, evs) \<Rightarrow> (Inl e, evs)
         | (Inr response, evs) \<Rightarrow>
             (case gunzip_ascii env (resp_content response) of
                Inl e \<Rightarrow> (Inl e, evs)
              | Inr s \<Rightarrow> (Inr (split_on newline s), evs)))
      else if str_lower host = ''rcsb-ligand'' then
        (case get_checked env host (rcsb_ligand_url code ftype) verify of
           (Inl e, evs) \<Rightarrow> (Inl e, evs)
         | (Inr response, evs) \<Rightarrow> (Inr (split_on newline (resp_text response)), evs))
      else if str_lower host = ''pubchem'' then
        (case get_checked env host (pubchem_url code ftype) verify of
           (Inl e, evs) \<Rightarrow> (Inl e, evs)
         | (Inr response, evs) \<Rightarrow> (Inr (split_on newline (resp_text response)), evs))
      else if str_lower host = ''alphafold'' then
        (case get_checked env host (alphafold_api_url code) verify of
           (Inl e, evs) \<Rightarrow> (Inl e, evs)
         | (Inr response, evs) \<Rightarrow>
             (case alphafold_file_url env response ftype of
                Inl e \<Rightarrow> (Inl e, evs)
              | Inr url \<Rightarrow>
                  (case get_checked env host url verify of
                     (Inl e, evs') \<Rightarrow> (Inl e, evs @ evs')
                   | (Inr response', evs') \<Rightarrow>
                       (Inr (split_on newline (resp_text response')), evs @ evs'))))
      else (Inl (Unknown_host host), []))"

section \<open>getpdb: the default file type\<close>

text \<open>Lines 136-140. \<open>not type\<close> holds for \<open>None\<close> and for the empty string.\<close>

definition resolve_type :: "string \<Rightarrow> string option \<Rightarrow> string" where
  "resolve_type code ftype =
     (if ftype = None \<or> ftype = Some [] then
        (if length code < 4 then FILE_DEFAULT_SMALL else FILE_DEFAULT_LARGE)
      else the ftype)"

section \<open>getpdb\<close>

text \<open>
  The loop over the hosts, lines 145-156. \<open>DATABASE_HOSTS.get(host)\<close> for a key
  of the registry is the list of its entry, so the loop runs over the entries.
  \<open>data\<close> starts empty, a success ends the loop (\<open>break\<close>), an exception
  is logged as a warning and the loop goes on.
\<close>

fun fetch_hosts ::
  "env \<Rightarrow> string \<Rightarrow> string \<Rightarrow> bool \<Rightarrow> (string \<times> string list) list \<Rightarrow>
   string list \<times> event list" where
  "fetch_hosts env code ftype verify [] = ([], [])"
| "fetch_hosts env code ftype verify ((host, caps) # rest) =
     (if str_lower ftype \<notin> set caps then
        (case fetch_hosts env code ftype verify rest of
           (data, evs) \<Rightarrow> (data, Log WARNING (Host_unsupported host ftype) # evs))
      else
        (case priv_getpdb env code ftype host verify of
           (Inr data, evs) \<Rightarrow> (data, evs)
         | (Inl error, evs) \<Rightarrow>
             (case fetch_hosts env code ftype verify rest of
                (data, evs') \<Rightarrow> (data, evs @ Log WARNING (Exc error) # evs'))))"

text \<open>Writing the file, the body of the \<open>try\<close> at lines 171-175. The second
  component is the local variable \<open>handle\<close>, once it is assigned.\<close>

fun print_lines ::
  "env \<Rightarrow> handle \<Rightarrow> string list \<Rightarrow> state \<Rightarrow> (exn + unit) \<times> handle \<times> state" where
  "print_lines env h [] st = (Inr (), h, st)"
| "print_lines env h (line # rest) st =
     (case py_print env h line st of
        (Inl e, h', st') \<Rightarrow> (Inl e, h', st')
      | (Inr _, h', st') \<Rightarrow> print_lines env h' rest st')"

definition write_try ::
  "env \<Rightarrow> string option \<Rightarrow> string \<Rightarrow> string list \<Rightarrow> state \<Rightarrow>
   (exn + unit) \<times> handle option \<times> state" where
  "write_try env path output data st =
     (case (if path \<noteq> None \<and> path \<noteq> Some [] then os_makedirs env (the path) st
            else (Inr (), st)) of
        (Inl e, st1) \<Rightarrow> (Inl e, None, st1)
      | (Inr _, st1) \<Rightarrow>
          (case py_open_w env output st1 of
             (Inl e, st2) \<Rightarrow> (Inl e, None, st2)
           | (Inr h, st2) \<Rightarrow>
               (case print_lines env h data st2 of
                  (r, h', st3) \<Rightarrow> (r, Some h', st3))))"

text \<open>
  The \<open>try\<close> block together with the release of \<open>handle\<close>. The interpreter
  releases it when \<open>getpdb\<close> returns, which is after the log call that follows the
  block; that call only adds to the log and the release only touches the file and the
  open files, so the state \<open>getpdb\<close> leaves is the same in either order.
\<close>

definition write_output ::
  "env \<Rightarrow> string option \<Rightarrow> string \<Rightarrow> string list \<Rightarrow> state \<Rightarrow> (exn + unit) \<times> state" where
  "write_output env path output data st =
     (case write_try env path output data st of
        (r, ho, st') \<Rightarrow> (r, release_handle env ho st'))"

text \<open>Lines 163-166: the name of the output file.\<close>

definition output_name :: "string \<Rightarrow> string \<Rightarrow> string option \<Rightarrow> string" where
  "output_name code ftype path =
     (if path \<noteq> None \<and> path \<noteq> Some []
      then os_path_join (the path) (code @ ''.'' @ str_lower ftype)
      else code @ ''.'' @ str_lower ftype)"

text \<open>\<open>getpdb(code, type, path, verify)\<close>, lines 117-182. It returns
  \<open>None\<close> on every path; the model returns the state it leaves.\<close>

definition getpdb ::
  "env \<Rightarrow> string \<Rightarrow> string option \<Rightarrow> string option \<Rightarrow> bool \<Rightarrow> state \<Rightarrow> state" where
  "getpdb env code ftype path verify st =
     (let t = resolve_type code ftype in
      case fetch_hosts env code t verify DATABASE_HOSTS of
        (data, evs) \<Rightarrow>
          if data = [] then emit (evs @ [Log ERROR (Could_not_fetch code t)]) st
          else
            (case write_output env path (output_name code t path) data
                    (emit (evs @ [Log INFO (Writing_output (output_name code t path))]) st) of
               (Inl error, st') \<Rightarrow> emit [Log ERROR (Exc error)] st'
             | (Inr _, st') \<Rightarrow> emit [Log INFO Finished] st'))"

section \<open>main\<close>

text \<open>
  The command line as argparse reads it: the identifiers, the value of \<open>-o\<close> and of
  \<open>-d\<close> when given, and whether \<open>-v\<close> and \<open>--no-ssl-verify\<close> occur.
  Lines 197-216 declare where each goes: \<open>--no-ssl-verify\<close> has
  \<open>dest="verify"\<close> and \<open>action='store_true'\<close>, so \<open>args.verify\<close> is
  \<open>True\<close> when the flag occurs and \<open>False\<close> when it does not.
\<close>

record cmdline =
  cl_code :: "string list"
  cl_o :: "string option"
  cl_dir :: "string option"
  cl_verbose :: bool
  cl_no_ssl_verify :: bool

record args =
  arg_verbose :: bool
  arg_code :: "string list"
  arg_type :: "string option"
  arg_dir :: "string option"
  arg_verify :: bool

definition parse_args :: "cmdline \<Rightarrow> args" where
  "parse_args cl =
     \<lparr>arg_verbose = cl_verbose cl, arg_code = cl_code cl, arg_type = cl_o cl,
      arg_dir = cl_dir cl, arg_verify = cl_no_ssl_verify cl\<rparr>"

text \<open>Lines 217-235.\<close>

definition main :: "env \<Rightarrow> cmdline \<Rightarrow> state \<Rightarrow> state" where
  "main env cl st =
     (let a = parse_args cl in
      foldl (\<lambda>s code. getpdb env code (arg_type a) (arg_dir a) (arg_verify a) s)
        (st\<lparr>log_level := (if arg_verbose a then INFO else ERROR)\<rparr>) (arg_code a))"

section \<open>Example worlds\<close>

text \<open>
  Concrete worlds on which the runs below are evaluated: a network on which exactly one
  URL answers, with status 200 and a given body, and every other request raises; a
  gzip whose archives are the text after the prefix \<open>gz:\<close>; a file system
  without faults and a buffer that always has room. \<open>env_down\<close> is the network on which nothing answers, and
  \<open>env_readonly\<close> a world in which every file-system call fails.
  \<open>is_ascii\<close> says that every character of a text is an ASCII character.
\<close>

definition is_ascii :: "string \<Rightarrow> bool" where
  "is_ascii s = list_all (\<lambda>c. (of_char c :: nat) < 128) s"

definition ok_response :: "string \<Rightarrow> response" where
  "ok_response body =
     \<lparr>resp_status_code = 200, resp_content = body, resp_text = body, resp_json = None\<rparr>"

definition env_only :: "string \<Rightarrow> string \<Rightarrow> env" where
  "env_only url body =
     \<lparr>http_get = (\<lambda>u v. if u = url then Get_returns (ok_response body)
                          else Get_raises ''ConnectionError''),
      gzip_decompress = (\<lambda>b. if take 3 b = ''gz:'' then Some (drop 3 b) else None),
      str_of_json = (\<lambda>j. ''None''),
      fs_fault = (\<lambda>op fs. False),
      early_flush = (\<lambda>pending. 0)\<rparr>"

definition env_down :: env where
  "env_down =
     \<lparr>http_get = (\<lambda>u v. Get_raises ''ConnectionError''),
      gzip_decompress = (\<lambda>b. None),
      str_of_json = (\<lambda>j. ''None''),
      fs_fault = (\<lambda>op fs. False),
      early_flush = (\<lambda>pending. 0)\<rparr>"

definition env_readonly :: "string \<Rightarrow> string \<Rightarrow> env" where
  "env_readonly url body = (env_only url body)\<lparr>fs_fault := (\<lambda>op fs. True)\<rparr>"

definition initial_state :: state where
  "initial_state = \<lparr>trace = [], files = Map.empty, open_handles = [], log_level = WARNING\<rparr>"

section \<open>Facts about the strings\<close>

lemmas str_defs = str_upper_def str_lower_def char_upper_def char_lower_def
  ascii_lowercase_def ascii_uppercase_def

lemma split_on_not_Nil: "split_on d s \<noteq> []"
  by (induction s) auto

lemma concat_split_on:
  "concat (map (\<lambda>l. l @ [d]) (split_on d s)) = s @ [d]"
proof (induction s)
  case Nil
  show ?case by simp
next
  case (Cons c cs)
  obtain l ls where sp: "split_on d cs = l # ls"
    using split_on_not_Nil [of d cs] by (cases "split_on d cs") auto
  with Cons show ?case by auto
qed

section \<open>What a run records\<close>

lemma get_checked_snd:
  "snd (get_checked env host url verify) = [Log INFO (Fetching_from url), Request host url verify]"
  by (simp add: get_checked_def)

lemma get_checked_not_invalid:
  "fst (get_checked env host url verify) \<noteq> Inl (Invalid_file_type x)"
  by (simp add: get_checked_def split: get_result.splits)

lemma priv_getpdb_events:
  assumes "e \<in> set (snd (priv_getpdb env code t h verify))"
  shows "(\<exists>u. e = Log INFO (Fetching_from u)) \<or> (\<exists>u. e = Request h u verify)"
proof -
  have one: "\<And>url r evs. get_checked env h url verify = (r, evs) \<Longrightarrow>
      evs = [Log INFO (Fetching_from url), Request h url verify]"
    using get_checked_snd by (metis snd_conv)
  show ?thesis
    using assms unfolding priv_getpdb_def
    by (auto split: if_splits prod.splits sum.splits dest!: one)
qed

lemma json_index0_not_invalid: "json_index0 j \<noteq> Inl (Invalid_file_type x)"
  by (simp add: json_index0_def split: json.splits list.splits)

lemma json_getitem_not_invalid: "json_getitem j k \<noteq> Inl (Invalid_file_type x)"
  by (simp add: json_getitem_def split: json.splits option.splits)

lemma gunzip_ascii_not_invalid: "gunzip_ascii env b \<noteq> Inl (Invalid_file_type x)"
  by (simp add: gunzip_ascii_def decode_ascii_def split: option.splits)

lemma alphafold_file_url_invalid:
  assumes "alphafold_file_url env r t = Inl (Invalid_file_type x)"
  shows "str_lower t \<noteq> ''cif'' \<and> str_lower t \<noteq> ''bcif'' \<and> str_lower t \<noteq> ''pdb''"
  using assms json_index0_not_invalid json_getitem_not_invalid
  unfolding alphafold_file_url_def
  by (auto split: option.splits sum.splits if_splits)

lemma priv_getpdb_invalid:
  assumes "fst (priv_getpdb env code t h verify) = Inl (Invalid_file_type x)"
  shows "str_lower h = ''alphafold'' \<and>
         str_lower t \<noteq> ''cif'' \<and> str_lower t \<noteq> ''bcif'' \<and> str_lower t \<noteq> ''pdb''"
proof -
  have gc: "\<And>url evs. get_checked env h url verify \<noteq> (Inl (Invalid_file_type x), evs)"
    using get_checked_not_invalid by (metis fst_conv)
  show ?thesis
    using assms gc gunzip_ascii_not_invalid alphafold_file_url_invalid
    unfolding priv_getpdb_def
    by (auto split: if_splits prod.splits sum.splits)
qed

lemma priv_getpdb_request:
  "Request h' u v \<in> set (snd (priv_getpdb env code t h verify)) \<Longrightarrow> h' = h \<and> v = verify"
  using priv_getpdb_events [of "Request h' u v" env code t h verify] by auto

lemma priv_getpdb_no_warning:
  "Log WARNING m \<notin> set (snd (priv_getpdb env code t h verify))"
  using priv_getpdb_events [of "Log WARNING m" env code t h verify] by auto

lemma priv_getpdb_no_call:
  "Call op \<notin> set (snd (priv_getpdb env code t h verify))"
  using priv_getpdb_events [of "Call op" env code t h verify] by auto

lemma fetch_hosts_request:
  "Request h u v \<in> set (snd (fetch_hosts env code t verify hosts)) \<Longrightarrow>
   v = verify \<and> (\<exists>caps. (h, caps) \<in> set hosts \<and> str_lower t \<in> set caps)"
proof (induction hosts)
  case Nil
  then show ?case by simp
next
  case (Cons hc rest)
  obtain h0 caps0 where hc: "hc = (h0, caps0)" by (cases hc)
  obtain r evs where p: "priv_getpdb env code t h0 verify = (r, evs)"
    by (cases "priv_getpdb env code t h0 verify")
  have own: "Request h u v \<in> set evs \<Longrightarrow> h = h0 \<and> v = verify"
    using priv_getpdb_request [of h u v env code t h0 verify] p by simp
  from Cons.prems hc p
  have "(str_lower t \<in> set caps0 \<and> Request h u v \<in> set evs) \<or>
        Request h u v \<in> set (snd (fetch_hosts env code t verify rest))"
    by (auto split: if_splits prod.splits sum.splits)
  then show ?case
  proof
    assume "str_lower t \<in> set caps0 \<and> Request h u v \<in> set evs"
    with own hc show ?case by auto
  next
    assume "Request h u v \<in> set (snd (fetch_hosts env code t verify rest))"
    from Cons.IH [OF this] show ?case by auto
  qed
qed

lemma fetch_hosts_warning_exc:
  "Log WARNING (Exc err) \<in> set (snd (fetch_hosts env code t verify hosts)) \<Longrightarrow>
   \<exists>h caps. (h, caps) \<in> set hosts \<and> str_lower t \<in> set caps \<and>
      fst (priv_getpdb env code t h verify) = Inl err"
proof (induction hosts)
  case Nil
  then show ?case by simp
next
  case (Cons hc rest)
  obtain h0 caps0 where hc: "hc = (h0, caps0)" by (cases hc)
  obtain r evs where p: "priv_getpdb env code t h0 verify = (r, evs)"
    by (cases "priv_getpdb env code t h0 verify")
  have own: "Log WARNING (Exc err) \<notin> set evs"
    using priv_getpdb_no_warning [of "Exc err" env code t h0 verify] p by simp
  from Cons.prems hc p own
  have "(str_lower t \<in> set caps0 \<and> r = Inl err) \<or>
        Log WARNING (Exc err) \<in> set (snd (fetch_hosts env code t verify rest))"
    by (auto split: if_splits prod.splits sum.splits)
  then show ?case
  proof
    assume a: "str_lower t \<in> set caps0 \<and> r = Inl err"
    with p have "fst (priv_getpdb env code t h0 verify) = Inl err" by simp
    with a hc show ?case by force
  next
    assume "Log WARNING (Exc err) \<in> set (snd (fetch_hosts env code t verify rest))"
    from Cons.IH [OF this] show ?case by auto
  qed
qed

lemma fetch_hosts_no_call:
  "Call op \<notin> set (snd (fetch_hosts env code t verify hosts))"
proof (induction hosts)
  case Nil
  show ?case by simp
next
  case (Cons hc rest)
  obtain h0 caps0 where hc: "hc = (h0, caps0)" by (cases hc)
  obtain r evs where p: "priv_getpdb env code t h0 verify = (r, evs)"
    by (cases "priv_getpdb env code t h0 verify")
  have own: "Call op \<notin> set evs"
    using priv_getpdb_no_call [of op env code t h0 verify] p by simp
  with Cons.IH hc p show ?case
    by (auto split: if_splits prod.splits sum.splits)
qed

lemma os_makedirs_trace:
  "trace (snd (os_makedirs env p st)) = trace st @ [Call (Op_makedirs p)]"
  by (simp add: os_makedirs_def emit_def Let_def split: sum.splits)

lemma py_open_w_trace:
  "trace (snd (py_open_w env name st)) = trace st @ [Call (Op_open name)]"
  by (simp add: py_open_w_def emit_def Let_def split: sum.splits)

lemma file_write_trace:
  "trace (snd (file_write env name chunk st)) = trace st"
  by (simp add: file_write_def split: option.splits node.splits)

lemma file_write_trace':
  "file_write env name chunk st = (r, st') \<Longrightarrow> trace st' = trace st"
  using file_write_trace [of env name chunk st] by simp

lemma py_print_trace:
  "trace (snd (snd (py_print env h line st))) = trace st @ [Call (Op_print (h_name h) line)]"
proof -
  let ?st1 = "emit [Call (Op_print (h_name h) line)] st"
  let ?p = "h_pending h @ line @ [newline]"
  obtain r st2 where w: "file_write env (h_name h) (take (early_flush env ?p) ?p) ?st1 = (r, st2)"
    by (cases "file_write env (h_name h) (take (early_flush env ?p) ?p) ?st1")
  from file_write_trace' [OF w] have "trace st2 = trace st @ [Call (Op_print (h_name h) line)]"
    by (simp add: emit_def)
  with w show ?thesis
    by (cases r) (simp_all add: py_print_def Let_def emit_def del: take_append)
qed

lemma py_print_name:
  "h_name (fst (snd (py_print env h line st))) = h_name h"
  by (simp add: py_print_def Let_def split: prod.splits sum.splits)

lemma print_lines_name:
  "h_name (fst (snd (print_lines env h data st))) = h_name h"
proof (induction data arbitrary: h st)
  case Nil
  show ?case by simp
next
  case (Cons line rest)
  obtain r h1 st1 where p: "py_print env h line st = (r, h1, st1)"
    by (cases "py_print env h line st") auto
  have n: "h_name h1 = h_name h" using py_print_name [of env h line st] p by simp
  show ?case using p n Cons.IH [of h1 st1] by (cases r) simp_all
qed

lemma print_lines_trace:
  "\<exists>k. trace (snd (snd (print_lines env h data st))) =
        trace st @ map (\<lambda>l. Call (Op_print (h_name h) l)) (take k data)"
proof (induction data arbitrary: h st)
  case Nil
  show ?case by simp
next
  case (Cons line rest)
  obtain r h1 st1 where p: "py_print env h line st = (r, h1, st1)"
    by (cases "py_print env h line st") auto
  have t: "trace st1 = trace st @ [Call (Op_print (h_name h) line)]"
    using py_print_trace [of env h line st] p by simp
  have n: "h_name h1 = h_name h" using py_print_name [of env h line st] p by simp
  show ?case
  proof (cases r)
    case (Inl e)
    with p t have "trace (snd (snd (print_lines env h (line # rest) st))) =
        trace st @ map (\<lambda>l. Call (Op_print (h_name h) l)) (take (Suc 0) (line # rest))"
      by simp
    then show ?thesis by blast
  next
    case (Inr u)
    from Cons.IH [of h1 st1] n obtain k where
      "trace (snd (snd (print_lines env h1 rest st1))) =
        trace st1 @ map (\<lambda>l. Call (Op_print (h_name h) l)) (take k rest)"
      by auto
    with p t Inr have "trace (snd (snd (print_lines env h (line # rest) st))) =
        trace st @ map (\<lambda>l. Call (Op_print (h_name h) l)) (take (Suc k) (line # rest))"
      by simp
    then show ?thesis by blast
  qed
qed

lemma release_handle_trace:
  "trace (release_handle env ho st) = trace st"
  using file_write_trace
  by (simp add: release_handle_def Let_def split: option.splits)

lemma write_try_trace:
  "\<exists>calls. trace (snd (snd (write_try env path out data st))) = trace st @ calls \<and>
     (\<forall>e \<in> set calls. \<exists>op. e = Call op)"
proof -
  obtain r1 st1 where m: "(if path \<noteq> None \<and> path \<noteq> Some [] then os_makedirs env (the path) st
            else (Inr (), st)) = (r1, st1)"
    by (cases "(if path \<noteq> None \<and> path \<noteq> Some [] then os_makedirs env (the path) st
            else (Inr (), st))")
  have t1: "\<exists>c1. trace st1 = trace st @ c1 \<and> (\<forall>e \<in> set c1. \<exists>op. e = Call op)"
  proof (cases "path \<noteq> None \<and> path \<noteq> Some []")
    case True
    with m os_makedirs_trace [of env "the path" st]
    have "trace st1 = trace st @ [Call (Op_makedirs (the path))]" by simp
    then show ?thesis by simp
  next
    case False
    with m have "st1 = st" by auto
    then show ?thesis by simp
  qed
  then obtain c1 where c1: "trace st1 = trace st @ c1" "\<forall>e \<in> set c1. \<exists>op. e = Call op"
    by blast
  show ?thesis
  proof (cases r1)
    case (Inl e)
    with m have "snd (snd (write_try env path out data st)) = st1"
      by (simp add: write_try_def)
    with c1 show ?thesis by auto
  next
    case (Inr u)
    obtain r2 st2 where o: "py_open_w env out st1 = (r2, st2)"
      by (cases "py_open_w env out st1")
    have t2: "trace st2 = trace st1 @ [Call (Op_open out)]"
      using py_open_w_trace [of env out st1] o by simp
    show ?thesis
    proof (cases r2)
      case (Inl e)
      with m Inr o have "snd (snd (write_try env path out data st)) = st2"
        by (simp add: write_try_def)
      with c1 t2 show ?thesis by auto
    next
      case (Inr h)
      from print_lines_trace [of env h data st2] obtain k where
        k: "trace (snd (snd (print_lines env h data st2))) =
            trace st2 @ map (\<lambda>l. Call (Op_print (h_name h) l)) (take k data)"
        by blast
      from m \<open>r1 = Inr u\<close> o Inr
      have "snd (snd (write_try env path out data st)) = snd (snd (print_lines env h data st2))"
        by (simp add: write_try_def split: prod.splits)
      with k t2 c1 have "trace (snd (snd (write_try env path out data st))) =
          trace st @ (c1 @ Call (Op_open out) # map (\<lambda>l. Call (Op_print (h_name h) l)) (take k data))"
        by simp
      moreover have "\<forall>e \<in> set (c1 @ Call (Op_open out) #
          map (\<lambda>l. Call (Op_print (h_name h) l)) (take k data)). \<exists>op. e = Call op"
        using c1(2) by auto
      ultimately show ?thesis by blast
    qed
  qed
qed

lemma write_output_snd:
  "snd (write_output env path out data st) =
     release_handle env (fst (snd (write_try env path out data st)))
       (snd (snd (write_try env path out data st)))"
  by (simp add: write_output_def split: prod.splits)

lemma write_output_fst:
  "fst (write_output env path out data st) = fst (write_try env path out data st)"
  by (simp add: write_output_def split: prod.splits)

lemma write_output_trace:
  "\<exists>calls. trace (snd (write_output env path out data st)) = trace st @ calls \<and>
     (\<forall>e \<in> set calls. \<exists>op. e = Call op)"
  using write_try_trace [of env path out data st]
  by (simp add: write_output_snd release_handle_trace)

lemma getpdb_not_fetched:
  assumes "fetch_hosts env code (resolve_type code ftype) verify DATABASE_HOSTS = ([], evs)"
  shows "getpdb env code ftype path verify st =
         emit (evs @ [Log ERROR (Could_not_fetch code (resolve_type code ftype))]) st"
  using assms by (simp add: getpdb_def)

lemma getpdb_fetched:
  assumes "fetch_hosts env code (resolve_type code ftype) verify DATABASE_HOSTS = (data, evs)"
    and "data \<noteq> []"
    and "write_output env path (output_name code (resolve_type code ftype) path) data
           (emit (evs @ [Log INFO (Writing_output
              (output_name code (resolve_type code ftype) path))]) st) = (r, st')"
  shows "getpdb env code ftype path verify st =
         emit [case r of Inl error \<Rightarrow> Log ERROR (Exc error) | Inr u \<Rightarrow> Log INFO Finished] st'"
  using assms by (cases r) (simp_all add: getpdb_def)

lemma getpdb_trace:
  "\<exists>tl. trace (getpdb env code ftype path verify st) =
      trace st @ snd (fetch_hosts env code (resolve_type code ftype) verify DATABASE_HOSTS) @ tl \<and>
      (\<forall>e \<in> set tl. (\<exists>m. e = Log ERROR m) \<or> (\<exists>m. e = Log INFO m) \<or> (\<exists>op. e = Call op))"
proof -
  define t where "t = resolve_type code ftype"
  obtain data evs where f: "fetch_hosts env code t verify DATABASE_HOSTS = (data, evs)"
    by (cases "fetch_hosts env code t verify DATABASE_HOSTS")
  show ?thesis
  proof (cases "data = []")
    case True
    with f have "trace (getpdb env code ftype path verify st) =
        trace st @ evs @ [Log ERROR (Could_not_fetch code t)]"
      using getpdb_not_fetched [of env code ftype verify evs path st]
      by (simp add: t_def emit_def)
    with f show ?thesis unfolding t_def by simp
  next
    case False
    define st1 where "st1 = emit (evs @ [Log INFO (Writing_output (output_name code t path))]) st"
    obtain r st' where w: "write_output env path (output_name code t path) data st1 = (r, st')"
      by (cases "write_output env path (output_name code t path) data st1")
    from write_output_trace [of env path "output_name code t path" data st1] w
    obtain calls where c: "trace st' = trace st1 @ calls" "\<forall>e \<in> set calls. \<exists>op. e = Call op"
      by auto
    have "\<exists>last. trace (getpdb env code ftype path verify st) = trace st' @ [last] \<and>
        ((\<exists>m. last = Log ERROR m) \<or> (\<exists>m. last = Log INFO m))"
      using getpdb_fetched [OF f [unfolded t_def] False w [unfolded st1_def t_def]]
      by (cases r) (simp_all add: emit_def)
    then obtain l where l: "trace (getpdb env code ftype path verify st) = trace st' @ [l]"
        "(\<exists>m. l = Log ERROR m) \<or> (\<exists>m. l = Log INFO m)"
      by blast
    have "trace (getpdb env code ftype path verify st) =
        trace st @ evs @ (Log INFO (Writing_output (output_name code t path)) # calls @ [l])"
      using l(1) c(1) by (simp add: st1_def emit_def)
    moreover have "\<forall>e \<in> set (Log INFO (Writing_output (output_name code t path)) # calls @ [l]).
        (\<exists>m. e = Log ERROR m) \<or> (\<exists>m. e = Log INFO m) \<or> (\<exists>op. e = Call op)"
      using c(2) l(2) by auto
    ultimately show ?thesis using f unfolding t_def by (metis snd_conv)
  qed
qed

lemma hosts_distinct: "distinct (map fst DATABASE_HOSTS)"
  by (simp add: DATABASE_HOSTS_def)

lemma hosts_alphafold:
  assumes "(h, caps) \<in> set DATABASE_HOSTS" and "str_lower h = ''alphafold''"
  shows "caps = [''cif'', ''bcif'', ''pdb'']"
proof -
  have "str_lower ''rcsb'' \<noteq> ''alphafold''" "str_lower ''rcsb-ligand'' \<noteq> ''alphafold''"
    "str_lower ''pubchem'' \<noteq> ''alphafold''"
    by (simp_all add: str_defs)
  with assms show ?thesis
    by (auto simp: DATABASE_HOSTS_def)
qed

lemma priv_getpdb_data_not_Nil:
  "fst (priv_getpdb env code t h verify) \<noteq> Inr []"
  unfolding priv_getpdb_def
  by (auto simp: split_on_not_Nil split: if_splits prod.splits sum.splits)

lemma fetch_hosts_append:
  "fetch_hosts env code t verify (a @ b) =
     (if fst (fetch_hosts env code t verify a) \<noteq> [] then fetch_hosts env code t verify a
      else (fst (fetch_hosts env code t verify b),
            snd (fetch_hosts env code t verify a) @ snd (fetch_hosts env code t verify b)))"
proof (induction a)
  case Nil
  show ?case by simp
next
  case (Cons hc a)
  obtain h caps where hc: "hc = (h, caps)" by (cases hc)
  obtain r evs where p: "priv_getpdb env code t h verify = (r, evs)"
    by (cases "priv_getpdb env code t h verify")
  have ne: "r \<noteq> Inr []"
    using priv_getpdb_data_not_Nil [of env code t h verify] p by simp
  show ?case
  proof (cases "str_lower t \<in> set caps")
    case False
    with Cons.IH hc show ?thesis
      by (simp split: prod.splits)
  next
    case True
    show ?thesis
    proof (cases r)
      case (Inr data)
      with ne have "data \<noteq> []" by simp
      with True hc p Inr show ?thesis by simp
    next
      case (Inl e)
      with True hc p Cons.IH show ?thesis
        by (simp split: prod.splits)
    qed
  qed
qed

lemma fetch_hosts_all_fail:
  assumes "\<forall>(g, gcaps) \<in> set hosts.
     str_lower t \<in> set gcaps \<longrightarrow> isl (fst (priv_getpdb env code t g verify))"
  shows "fst (fetch_hosts env code t verify hosts) = []"
  using assms
proof (induction hosts)
  case Nil
  show ?case by simp
next
  case (Cons hc hosts)
  obtain h caps where hc: "hc = (h, caps)" by (cases hc)
  obtain r evs where p: "priv_getpdb env code t h verify = (r, evs)"
    by (cases "priv_getpdb env code t h verify")
  from Cons.prems have rest: "fst (fetch_hosts env code t verify hosts) = []"
    by (intro Cons.IH) simp
  from Cons.prems hc p have "str_lower t \<in> set caps \<Longrightarrow> isl r" by simp
  with rest hc p show ?case
    by (cases r) (auto split: prod.splits)
qed

lemmas world_defs = ok_response_def env_only_def env_down_def env_readonly_def initial_state_def

lemmas host_defs = priv_getpdb_def get_checked_def rcsb_url_def rcsb_ligand_url_def
  pubchem_url_def alphafold_api_url_def gunzip_ascii_def decode_ascii_def

lemmas run_defs = getpdb_def write_output_def write_try_def release_handle_def
  close_handle_def file_write_def output_name_def os_makedirs_def py_open_w_def
  py_print_def open_w_def node_at_def components_def emit_def resolve_type_def
  FILE_DEFAULT_SMALL_def FILE_DEFAULT_LARGE_def DATABASE_HOSTS_def slash_def newline_def
  os_path_join_def

section \<open>Facts about the writer\<close>

lemma node_at_File_upd:
  assumes "node_at fs q = Some (File c)"
  shows "node_at (fs(q \<mapsto> File d)) q = Some (File d)" and "fs q = Some (File c)"
  using assms by (auto simp: node_at_def split: if_splits)

lemma file_write_cases:
  assumes "file_write env name chunk st = (r, st')"
  shows "(\<exists>e. r = Inl e \<and> st' = st) \<or>
         (r = Inr () \<and> (\<exists>c. node_at (files st) (components name) = Some (File c) \<and>
            st' = st\<lparr>files := (files st)(components name \<mapsto> File (c @ chunk))\<rparr>))"
  using assms
  by (auto simp: file_write_def split: if_splits option.splits node.splits)

lemma file_write_no_fault:
  assumes "\<not> fs_fault env (Op_write name chunk) (files st)"
    and "node_at (files st) (components name) = Some (File c)"
  shows "file_write env name chunk st =
     (Inr (), st\<lparr>files := (files st)(components name \<mapsto> File (c @ chunk))\<rparr>)"
  using assms by (simp add: file_write_def)

lemma py_print_acc:
  assumes "py_print env h line st = (r, h', st')"
    and "node_at (files st) (components (h_name h)) = Some (File c)"
  shows "h_name h' = h_name h \<and> open_handles st' = open_handles st \<and>
         (\<exists>c'. node_at (files st') (components (h_name h)) = Some (File c') \<and>
               c' @ h_pending h' = c @ h_pending h @ line @ [newline])"
proof -
  let ?st1 = "emit [Call (Op_print (h_name h) line)] st"
  let ?p = "h_pending h @ line @ [newline]"
  let ?k = "early_flush env ?p"
  have n1: "node_at (files ?st1) (components (h_name h)) = Some (File c)"
    using assms(2) by (simp add: emit_def)
  show ?thesis
  proof (cases "?k = 0")
    case True
    with assms(1) have "h' = h\<lparr>h_pending := ?p\<rparr>" "st' = ?st1"
      by (simp_all add: py_print_def Let_def)
    with n1 show ?thesis by (simp add: emit_def)
  next
    case False
    obtain r2 st2 where w: "file_write env (h_name h) (take ?k ?p) ?st1 = (r2, st2)"
      by (cases "file_write env (h_name h) (take ?k ?p) ?st1")
    from file_write_cases [OF w] show ?thesis
    proof
      assume "\<exists>e. r2 = Inl e \<and> st2 = ?st1"
      then obtain e where e: "r2 = Inl e" "st2 = ?st1" by blast
      with assms(1) False w have "h' = h\<lparr>h_pending := ?p\<rparr>" "st' = ?st1"
        by (simp_all add: py_print_def Let_def del: take_append)
      with n1 show ?thesis by (simp add: emit_def)
    next
      assume "r2 = Inr () \<and> (\<exists>c. node_at (files ?st1) (components (h_name h)) = Some (File c) \<and>
            st2 = ?st1\<lparr>files := (files ?st1)(components (h_name h) \<mapsto> File (c @ take ?k ?p))\<rparr>)"
      with n1 have r2: "r2 = Inr ()"
        and st2: "st2 = ?st1\<lparr>files := (files ?st1)(components (h_name h) \<mapsto> File (c @ take ?k ?p))\<rparr>"
        by auto
      from assms(1) False w r2 have h': "h' = h\<lparr>h_pending := drop ?k ?p\<rparr>" and s': "st' = st2"
        by (simp_all add: py_print_def Let_def del: take_append drop_append)
      have "node_at (files st') (components (h_name h)) = Some (File (c @ take ?k ?p))"
        unfolding s' st2 using node_at_File_upd(1) [OF n1] by simp
      moreover have "(c @ take ?k ?p) @ h_pending h' = c @ ?p"
        unfolding h' by (simp del: take_append drop_append)
      moreover have "open_handles st' = open_handles st"
        unfolding s' st2 by (simp add: emit_def)
      ultimately show ?thesis using h' by auto
    qed
  qed
qed

lemma print_lines_acc:
  assumes "print_lines env h data st = (Inr u, h', st')"
    and "node_at (files st) (components (h_name h)) = Some (File c)"
  shows "h_name h' = h_name h \<and> open_handles st' = open_handles st \<and>
         (\<exists>c'. node_at (files st') (components (h_name h)) = Some (File c') \<and>
               c' @ h_pending h' =
                 c @ h_pending h @ concat (map (\<lambda>l. l @ [newline]) data))"
  using assms
proof (induction data arbitrary: h st c)
  case Nil
  then show ?case by simp
next
  case (Cons line rest)
  obtain r h1 st1 where p: "py_print env h line st = (r, h1, st1)"
    by (cases "py_print env h line st") auto
  with Cons.prems(1) obtain u1 where r: "r = Inr u1" by (cases r) auto
  from py_print_acc [OF p Cons.prems(2)] obtain c1 where
    n: "h_name h1 = h_name h" and o: "open_handles st1 = open_handles st" and
    f: "node_at (files st1) (components (h_name h)) = Some (File c1)" and
    a: "c1 @ h_pending h1 = c @ h_pending h @ line @ [newline]"
    by blast
  from Cons.prems(1) p r have q: "print_lines env h1 rest st1 = (Inr u, h', st')" by simp
  from Cons.IH [OF q f [folded n]] n obtain c' where
    i1: "h_name h' = h_name h" and i2: "open_handles st' = open_handles st1" and
    i3: "node_at (files st') (components (h_name h)) = Some (File c')" and
    i4: "c' @ h_pending h' = c1 @ h_pending h1 @ concat (map (\<lambda>l. l @ [newline]) rest)"
    by auto
  from a have "c1 @ h_pending h1 @ concat (map (\<lambda>l. l @ [newline]) rest) =
      c @ h_pending h @ line @ [newline] @ concat (map (\<lambda>l. l @ [newline]) rest)"
    by (metis append_assoc)
  with i4 have "c' @ h_pending h' =
      c @ h_pending h @ concat (map (\<lambda>l. l @ [newline]) (line # rest))"
    by simp
  moreover from i2 o have "open_handles st' = open_handles st" by simp
  ultimately show ?case using i1 i3 by (intro conjI exI [of _ c']) assumption+
qed

lemma close_handle_last: "close_handle name (hs @ [name]) = hs"
  by (simp add: close_handle_def)

lemma py_open_w_ok:
  assumes "py_open_w env name st = (Inr h, st')"
  shows "h = \<lparr>h_name = name, h_pending = []\<rparr> \<and>
         files st' = (files st)(components name \<mapsto> File []) \<and>
         open_handles st' = open_handles st @ [name] \<and>
         node_at (files st') (components name) = Some (File [])"
  using assms
  by (auto simp: py_open_w_def open_w_def Let_def emit_def node_at_def
      split: if_splits option.splits node.splits sum.splits)

lemma os_makedirs_handles:
  "open_handles (snd (os_makedirs env p st)) = open_handles st"
  by (simp add: os_makedirs_def Let_def emit_def split: sum.splits)

lemma release_handle_flush:
  assumes "node_at (files st) (components (h_name h)) = Some (File c)"
    and "\<forall>name chunk fs. \<not> fs_fault env (Op_write name chunk) fs"
  shows "node_at (files (release_handle env (Some h) st)) (components (h_name h)) =
           Some (File (c @ h_pending h)) \<and>
         open_handles (release_handle env (Some h) st) =
           close_handle (h_name h) (open_handles st)"
proof (cases "h_pending h = []")
  case True
  with assms(1) show ?thesis by (simp add: release_handle_def)
next
  case False
  from file_write_no_fault [of env "h_name h" "h_pending h" st c] assms
  have "file_write env (h_name h) (h_pending h) st =
     (Inr (), st\<lparr>files := (files st)(components (h_name h) \<mapsto> File (c @ h_pending h))\<rparr>)"
    by blast
  with False node_at_File_upd(1) [OF assms(1)] show ?thesis
    by (simp add: release_handle_def Let_def)
qed

lemma file_write_handles:
  "open_handles (snd (file_write env name chunk st)) = open_handles st"
  by (simp add: file_write_def split: option.splits node.splits)

lemma release_handle_handles:
  "open_handles (release_handle env (Some h) st) = close_handle (h_name h) (open_handles st)"
  using file_write_handles [of env "h_name h" "h_pending h" st]
  by (simp add: release_handle_def Let_def)

lemma py_print_handles:
  "open_handles (snd (snd (py_print env h line st))) = open_handles st"
proof -
  let ?st1 = "emit [Call (Op_print (h_name h) line)] st"
  let ?p = "h_pending h @ line @ [newline]"
  obtain r st2 where w: "file_write env (h_name h) (take (early_flush env ?p) ?p) ?st1 = (r, st2)"
    by (cases "file_write env (h_name h) (take (early_flush env ?p) ?p) ?st1")
  have "open_handles st2 = open_handles st"
    using file_write_handles [of env "h_name h" "take (early_flush env ?p) ?p" ?st1] w
    by (simp add: emit_def)
  with w show ?thesis
    by (cases r) (simp_all add: py_print_def Let_def emit_def del: take_append)
qed

lemma print_lines_handles:
  "open_handles (snd (snd (print_lines env h data st))) = open_handles st"
proof (induction data arbitrary: h st)
  case Nil
  show ?case by simp
next
  case (Cons line rest)
  obtain r h1 st1 where p: "py_print env h line st = (r, h1, st1)"
    by (cases "py_print env h line st") auto
  have "open_handles st1 = open_handles st"
    using py_print_handles [of env h line st] p by simp
  with p Cons.IH [of h1 st1] show ?case by (cases r) simp_all
qed

lemma write_try_cases:
  obtains (mk) e st1 where "path \<noteq> None" "path \<noteq> Some []"
      "os_makedirs env (the path) st = (Inl e, st1)"
      "write_try env path out data st = (Inl e, None, st1)"
  | (op) st1 e st2 where
      "st1 = (if path \<noteq> None \<and> path \<noteq> Some [] then snd (os_makedirs env (the path) st) else st)"
      "path \<noteq> None \<and> path \<noteq> Some [] \<longrightarrow> fst (os_makedirs env (the path) st) = Inr ()"
      "py_open_w env out st1 = (Inl e, st2)"
      "write_try env path out data st = (Inl e, None, st2)"
  | (pr) st1 h st2 r h' st3 where
      "st1 = (if path \<noteq> None \<and> path \<noteq> Some [] then snd (os_makedirs env (the path) st) else st)"
      "path \<noteq> None \<and> path \<noteq> Some [] \<longrightarrow> fst (os_makedirs env (the path) st) = Inr ()"
      "py_open_w env out st1 = (Inr h, st2)"
      "print_lines env h data st2 = (r, h', st3)"
      "write_try env path out data st = (r, Some h', st3)"
proof -
  let ?m = "(if path \<noteq> None \<and> path \<noteq> Some [] then os_makedirs env (the path) st
            else (Inr (), st))"
  obtain r1 st1 where m: "?m = (r1, st1)" by (cases ?m)
  show thesis
  proof (cases r1)
    case (Inl e)
    with m have "path \<noteq> None" "path \<noteq> Some []" "os_makedirs env (the path) st = (Inl e, st1)"
      by (auto split: if_splits)
    moreover from m Inl have "write_try env path out data st = (Inl e, None, st1)"
      by (simp add: write_try_def)
    ultimately show thesis by (rule mk)
  next
    case (Inr u)
    from m Inr have s1: "st1 = (if path \<noteq> None \<and> path \<noteq> Some []
        then snd (os_makedirs env (the path) st) else st)"
      and ok: "path \<noteq> None \<and> path \<noteq> Some [] \<longrightarrow> fst (os_makedirs env (the path) st) = Inr ()"
      by (auto split: if_splits)
    obtain r2 st2 where o: "py_open_w env out st1 = (r2, st2)"
      by (cases "py_open_w env out st1")
    show thesis
    proof (cases r2)
      case (Inl e)
      with m \<open>r1 = Inr u\<close> o have "write_try env path out data st = (Inl e, None, st2)"
        by (simp add: write_try_def)
      with s1 ok o Inl show thesis by (intro op) auto
    next
      case (Inr h)
      obtain r h' st3 where p: "print_lines env h data st2 = (r, h', st3)"
        by (cases "print_lines env h data st2") auto
      with m \<open>r1 = Inr u\<close> o Inr have "write_try env path out data st = (r, Some h', st3)"
        by (simp add: write_try_def)
      with s1 ok o Inr p show thesis by (intro pr) auto
    qed
  qed
qed

lemma write_output_handles:
  "open_handles (snd (write_output env path out data st)) = open_handles st"
proof (cases rule: write_try_cases [of path env st out data])
  case (mk e st1)
  with os_makedirs_handles [of env "the path" st] show ?thesis
    by (simp add: write_output_def release_handle_def)
next
  case (op st1 e st2)
  have "open_handles st1 = open_handles st"
    using op(1) os_makedirs_handles [of env "the path" st] by simp
  moreover have "open_handles st2 = open_handles st1"
    using op(3) by (auto simp: py_open_w_def Let_def emit_def split: if_splits sum.splits)
  ultimately show ?thesis using op(4)
    by (simp add: write_output_def release_handle_def)
next
  case (pr st1 h st2 r h' st3)
  have a: "open_handles st1 = open_handles st"
    using pr(1) os_makedirs_handles [of env "the path" st] by simp
  from py_open_w_ok [OF pr(3)] have b: "open_handles st2 = open_handles st1 @ [out]"
    and hn: "h_name h = out" by auto
  have c: "open_handles st3 = open_handles st2"
    using print_lines_handles [of env h data st2] pr(4) by simp
  have n: "h_name h' = out"
    using print_lines_name [of env h data st2] pr(4) hn by simp
  show ?thesis using pr(5) a b c n
    by (simp add: write_output_def release_handle_handles close_handle_last)
qed

lemma write_output_ok:
  assumes "write_output env path out data st = (Inr u, st')"
    and "\<forall>name chunk fs. \<not> fs_fault env (Op_write name chunk) fs"
  shows "node_at (files st') (components out) =
           Some (File (concat (map (\<lambda>l. l @ [newline]) data)))"
proof (cases rule: write_try_cases [of path env st out data])
  case (mk e st1)
  with assms(1) show ?thesis by (simp add: write_output_def)
next
  case (op st1 e st2)
  with assms(1) show ?thesis by (simp add: write_output_def)
next
  case (pr st1 h st2 r h' st3)
  from assms(1) pr(5) have r: "r = Inr u" and s': "st' = release_handle env (Some h') st3"
    by (simp_all add: write_output_def)
  from py_open_w_ok [OF pr(3)] have hn: "h_name h = out" and hp: "h_pending h = []"
    and f2: "node_at (files st2) (components out) = Some (File [])"
    by auto
  from print_lines_acc [OF pr(4) [unfolded r] f2 [folded hn]] hn hp obtain c' where
    n: "h_name h' = out" and
    f3: "node_at (files st3) (components out) = Some (File c')" and
    a: "c' @ h_pending h' = concat (map (\<lambda>l. l @ [newline]) data)"
    by auto
  from release_handle_flush [OF f3 [folded n] assms(2)] n a show ?thesis
    unfolding s' by simp
qed

lemma getpdb_finished:
  assumes "last (trace (getpdb env code ftype path verify st)) = Log INFO Finished"
  shows "\<exists>data evs st'.
      fetch_hosts env code (resolve_type code ftype) verify DATABASE_HOSTS = (data, evs) \<and>
      data \<noteq> [] \<and>
      write_output env path (output_name code (resolve_type code ftype) path) data
        (emit (evs @ [Log INFO (Writing_output
           (output_name code (resolve_type code ftype) path))]) st) = (Inr (), st') \<and>
      getpdb env code ftype path verify st = emit [Log INFO Finished] st'"
proof -
  obtain data evs where f: "fetch_hosts env code (resolve_type code ftype) verify DATABASE_HOSTS = (data, evs)"
    by (cases "fetch_hosts env code (resolve_type code ftype) verify DATABASE_HOSTS")
  have d: "data \<noteq> []"
  proof
    assume "data = []"
    with f assms getpdb_not_fetched [of env code ftype verify evs path st]
    show False by (simp add: emit_def)
  qed
  obtain r st' where w: "write_output env path (output_name code (resolve_type code ftype) path) data
        (emit (evs @ [Log INFO (Writing_output
           (output_name code (resolve_type code ftype) path))]) st) = (r, st')"
    by (cases "write_output env path (output_name code (resolve_type code ftype) path) data
        (emit (evs @ [Log INFO (Writing_output
           (output_name code (resolve_type code ftype) path))]) st)")
  note g = getpdb_fetched [OF f d w]
  from g assms have "r = Inr ()"
    by (cases r) (simp_all add: emit_def)
  with f d w g show ?thesis by simp
qed

lemma getpdb_handles:
  "open_handles (getpdb env code ftype path verify st) = open_handles st"
proof -
  obtain data evs where f: "fetch_hosts env code (resolve_type code ftype) verify DATABASE_HOSTS = (data, evs)"
    by (cases "fetch_hosts env code (resolve_type code ftype) verify DATABASE_HOSTS")
  show ?thesis
  proof (cases "data = []")
    case True
    with f getpdb_not_fetched [of env code ftype verify evs path st] show ?thesis
      by (simp add: emit_def)
  next
    case False
    let ?st0 = "emit (evs @ [Log INFO (Writing_output
           (output_name code (resolve_type code ftype) path))]) st"
    obtain r st' where w: "write_output env path (output_name code (resolve_type code ftype) path)
        data ?st0 = (r, st')"
      by (cases "write_output env path (output_name code (resolve_type code ftype) path) data ?st0")
    from write_output_handles [of env path "output_name code (resolve_type code ftype) path" data ?st0] w
    have "open_handles st' = open_handles st" by (simp add: emit_def)
    with getpdb_fetched [OF f False w] show ?thesis by (simp add: emit_def)
  qed
qed

lemma print_lines_total:
  assumes "\<forall>name chunk fs. \<not> fs_fault env (Op_write name chunk) fs"
    and "node_at (files st) (components (h_name h)) = Some (File c)"
  shows "fst (print_lines env h data st) = Inr ()"
  using assms(2)
proof (induction data arbitrary: h st c)
  case Nil
  show ?case by simp
next
  case (Cons line rest)
  obtain r h1 st1 where p: "py_print env h line st = (r, h1, st1)"
    by (cases "py_print env h line st") auto
  let ?st1 = "emit [Call (Op_print (h_name h) line)] st"
  let ?p = "h_pending h @ line @ [newline]"
  have n1: "node_at (files ?st1) (components (h_name h)) = Some (File c)"
    using Cons.prems by (simp add: emit_def)
  from file_write_no_fault [of env "h_name h" "take (early_flush env ?p) ?p" ?st1 c] assms(1) n1
  have w: "fst (file_write env (h_name h) (take (early_flush env ?p) ?p) ?st1) = Inr ()"
    by simp
  have r: "r = Inr ()"
    using p w by (auto simp: py_print_def Let_def split: if_splits prod.splits sum.splits
        simp del: take_append)
  from py_print_acc [OF p Cons.prems] obtain c1 where
    "h_name h1 = h_name h" "node_at (files st1) (components (h_name h)) = Some (File c1)"
    by blast
  then have "node_at (files st1) (components (h_name h1)) = Some (File c1)" by simp
  from Cons.IH [OF this] p r show ?case by simp
qed

lemma write_output_total:
  assumes "\<forall>op fs. \<not> fs_fault env op fs"
    and "node_at (files st) (components out) \<noteq> Some Dir"
    and "first_not_dir (files st) [] (butlast (components out)) = None"
  shows "fst (write_output env None out data st) = Inr ()"
proof -
  let ?h = "\<lparr>h_name = out, h_pending = []\<rparr>"
  let ?st2 = "(emit [Call (Op_open out)] st)\<lparr>files := (files st)(components out \<mapsto> File []),
      open_handles := open_handles st @ [out]\<rparr>"
  have ow: "open_w (files st) (components out) = Inr ((files st)(components out \<mapsto> File []))"
    using assms(2,3) by (simp add: open_w_def split: option.splits node.splits)
  have o: "py_open_w env out st = (Inr ?h, ?st2)"
    using assms(1) ow by (simp add: py_open_w_def Let_def)
  have q: "components out \<noteq> [] \<and> components out \<noteq> [''/'']"
    using assms(2) by (auto simp: node_at_def)
  then have "node_at (files ?st2) (components (h_name ?h)) = Some (File [])"
    by (simp add: node_at_def)
  from print_lines_total [OF _ this, of env data] assms(1)
  have "fst (print_lines env ?h data ?st2) = Inr ()" by simp
  with o show ?thesis
    by (auto simp: write_output_def write_try_def split: prod.splits)
qed

lemma str_upper_1LYZ: "str_upper ''1LYZ'' = ''1LYZ''"
  by (simp add: str_defs)

lemma str_lower_cif: "str_lower ''cif'' = ''cif''"
  by (simp add: str_defs)

lemma components_1LYZ_cif: "components ''1LYZ.cif'' = [''1LYZ.cif'']"
  by (simp add: components_def slash_def)

section \<open>Facts about directories\<close>

lemma node_at_upd_Dir:
  "node_at fs x = Some Dir \<Longrightarrow> node_at (fs(q \<mapsto> Dir)) x = Some Dir"
  by (auto simp: node_at_def split: if_splits)

lemma mkdirs_keeps_dirs:
  assumes "mkdirs fs pre cs = Inr fs'" and "node_at fs x = Some Dir"
  shows "node_at fs' x = Some Dir"
  using assms
proof (induction cs arbitrary: fs pre)
  case Nil
  then show ?case by simp
next
  case (Cons c cs)
  show ?case
  proof (cases "node_at fs (pre @ [c])")
    case None
    with Cons.prems(1) have "mkdirs (fs(pre @ [c] \<mapsto> Dir)) (pre @ [c]) cs = Inr fs'" by simp
    from Cons.IH [OF this node_at_upd_Dir [OF Cons.prems(2)]] show ?thesis .
  next
    case (Some n)
    with Cons.prems(1) have "n = Dir" "mkdirs fs (pre @ [c]) cs = Inr fs'"
      by (cases n; simp)+
    from Cons.IH [OF this(2) Cons.prems(2)] show ?thesis .
  qed
qed

lemma mkdirs_creates:
  assumes "mkdirs fs pre cs = Inr fs'" and "0 < n" and "n \<le> length cs"
  shows "node_at fs' (pre @ take n cs) = Some Dir"
  using assms
proof (induction cs arbitrary: fs pre n)
  case Nil
  then show ?case by simp
next
  case (Cons c cs)
  define fs1 where "fs1 = (case node_at fs (pre @ [c]) of None \<Rightarrow> fs(pre @ [c] \<mapsto> Dir) | Some _ \<Rightarrow> fs)"
  have step: "mkdirs fs1 (pre @ [c]) cs = Inr fs'" and here: "node_at fs1 (pre @ [c]) = Some Dir"
    using Cons.prems(1) unfolding fs1_def
    by (auto simp: node_at_def split: option.splits node.splits if_splits)
  obtain m where n: "n = Suc m" using Cons.prems(2) by (cases n) auto
  show ?case
  proof (cases m)
    case 0
    with n mkdirs_keeps_dirs [OF step here] show ?thesis by simp
  next
    case (Suc k)
    with n Cons.prems(3) have "0 < m" "m \<le> length cs" by simp_all
    from Cons.IH [OF step this] n show ?thesis by simp
  qed
qed

lemma mkdirs_existing:
  assumes "\<forall>n. 0 < n \<and> n \<le> length cs \<longrightarrow> node_at fs (pre @ take n cs) = Some Dir"
  shows "mkdirs fs pre cs = Inr fs"
  using assms
proof (induction cs arbitrary: pre)
  case Nil
  show ?case by simp
next
  case (Cons c cs)
  from Cons.prems [rule_format, of 1] have here: "node_at fs (pre @ [c]) = Some Dir" by simp
  have "\<forall>n. 0 < n \<and> n \<le> length cs \<longrightarrow> node_at fs ((pre @ [c]) @ take n cs) = Some Dir"
  proof (intro allI impI)
    fix n assume "0 < n \<and> n \<le> length cs"
    with Cons.prems [rule_format, of "Suc n"] show "node_at fs ((pre @ [c]) @ take n cs) = Some Dir"
      by simp
  qed
  from Cons.IH [OF this] here show ?case by simp
qed

lemma mkdirs_idempotent:
  assumes "mkdirs fs pre cs = Inr fs'"
  shows "mkdirs fs' pre cs = Inr fs'"
proof (rule mkdirs_existing, intro allI impI)
  fix n assume "0 < n \<and> n \<le> length cs"
  with mkdirs_creates [OF assms] show "node_at fs' (pre @ take n cs) = Some Dir" by simp
qed

lemma mkdirs_succeeds:
  assumes "\<forall>n c. n \<le> length cs \<longrightarrow> node_at fs (pre @ take n cs) \<noteq> Some (File c)"
  shows "\<exists>fs'. mkdirs fs pre cs = Inr fs'"
  using assms
proof (induction cs arbitrary: fs pre)
  case Nil
  show ?case by simp
next
  case (Cons c cs)
  define fs1 where "fs1 = (case node_at fs (pre @ [c]) of None \<Rightarrow> fs(pre @ [c] \<mapsto> Dir) | Some _ \<Rightarrow> fs)"
  from Cons.prems [rule_format, of 1] have nf: "\<And>d. node_at fs (pre @ [c]) \<noteq> Some (File d)"
    by simp
  have eq: "mkdirs fs pre (c # cs) = mkdirs fs1 (pre @ [c]) cs"
    using nf unfolding fs1_def by (auto split: option.splits node.splits)
  have "\<forall>n d. n \<le> length cs \<longrightarrow> node_at fs1 ((pre @ [c]) @ take n cs) \<noteq> Some (File d)"
  proof (intro allI impI)
    fix n d assume "n \<le> length cs"
    with Cons.prems [rule_format, of "Suc n" d]
    have "node_at fs ((pre @ [c]) @ take n cs) \<noteq> Some (File d)" by simp
    then show "node_at fs1 ((pre @ [c]) @ take n cs) \<noteq> Some (File d)"
      unfolding fs1_def by (auto simp: node_at_def split: option.splits if_splits)
  qed
  from Cons.IH [OF this] eq show ?case by simp
qed

lemma os_makedirs_succeeds:
  assumes "p \<noteq> []"
    and "\<not> fs_fault env (Op_makedirs p) (files st)"
    and "\<forall>n c. n \<le> length (components p) \<longrightarrow>
           node_at (files st) (take n (components p)) \<noteq> Some (File c)"
  shows "\<exists>fs'. mkdirs (files st) [] (components p) = Inr fs' \<and>
           os_makedirs env p st = (Inr (), (emit [Call (Op_makedirs p)] st)\<lparr>files := fs'\<rparr>)"
proof -
  from mkdirs_succeeds [of "components p" "files st" "[]"] assms(3)
  obtain fs' where "mkdirs (files st) [] (components p) = Inr fs'" by auto
  with assms(1,2) show ?thesis
    by (simp add: os_makedirs_def Let_def)
qed

lemma os_makedirs_existing:
  assumes "p \<noteq> []"
    and "\<not> fs_fault env (Op_makedirs p) (files st)"
    and "\<forall>n. n \<le> length (components p) \<longrightarrow>
           node_at (files st) (take n (components p)) = Some Dir"
  shows "os_makedirs env p st = (Inr (), emit [Call (Op_makedirs p)] st)"
proof -
  have "mkdirs (files st) [] (components p) = Inr (files st)"
    using assms(3) by (intro mkdirs_existing) simp
  with assms(1,2) show ?thesis
    by (simp add: os_makedirs_def Let_def emit_def)
qed

lemma file_write_keeps_dirs:
  assumes "node_at (files st) x = Some Dir"
  shows "node_at (files (snd (file_write env name chunk st))) x = Some Dir"
  using assms
  by (auto simp: file_write_def node_at_def split: if_splits option.splits node.splits)

lemma py_open_w_keeps_dirs:
  assumes "node_at (files st) x = Some Dir"
  shows "node_at (files (snd (py_open_w env name st))) x = Some Dir"
  using assms
  by (auto simp: py_open_w_def open_w_def Let_def emit_def node_at_def
      split: if_splits option.splits node.splits sum.splits)

lemma py_print_keeps_dirs:
  assumes "node_at (files st) x = Some Dir"
  shows "node_at (files (snd (snd (py_print env h line st)))) x = Some Dir"
proof -
  let ?st1 = "emit [Call (Op_print (h_name h) line)] st"
  let ?p = "h_pending h @ line @ [newline]"
  obtain r st2 where w: "file_write env (h_name h) (take (early_flush env ?p) ?p) ?st1 = (r, st2)"
    by (cases "file_write env (h_name h) (take (early_flush env ?p) ?p) ?st1")
  have d1: "node_at (files ?st1) x = Some Dir"
    using assms by (simp add: emit_def)
  from file_write_keeps_dirs [OF d1, of env "h_name h" "take (early_flush env ?p) ?p"] w
  have d2: "node_at (files st2) x = Some Dir" by simp
  show ?thesis
    using w d1 d2
    by (cases r) (simp_all add: py_print_def Let_def del: take_append drop_append)
qed

lemma print_lines_keeps_dirs:
  assumes "node_at (files st) x = Some Dir"
  shows "node_at (files (snd (snd (print_lines env h data st)))) x = Some Dir"
  using assms
proof (induction data arbitrary: h st)
  case Nil
  then show ?case by simp
next
  case (Cons line rest)
  obtain r h1 st1 where p: "py_print env h line st = (r, h1, st1)"
    by (cases "py_print env h line st")
  from py_print_keeps_dirs [OF Cons.prems, of env h line] p
  have k: "node_at (files st1) x = Some Dir" by simp
  show ?case
  proof (cases r)
    case (Inl e)
    with p k show ?thesis by simp
  next
    case (Inr u)
    with p Cons.IH [OF k] show ?thesis by simp
  qed
qed

lemma release_handle_keeps_dirs:
  assumes "node_at (files st) x = Some Dir"
  shows "node_at (files (release_handle env ho st)) x = Some Dir"
  using assms file_write_keeps_dirs [OF assms]
  by (simp add: release_handle_def Let_def split: option.splits)

lemma write_output_after_makedirs:
  assumes "p \<noteq> []"
    and "os_makedirs env p st = (Inr (), st1)"
  shows "\<exists>rest. trace (snd (write_output env (Some p) out data st)) =
           trace st @ [Call (Op_makedirs p), Call (Op_open out)] @ rest"
    and "node_at (files st1) x = Some Dir \<Longrightarrow>
           node_at (files (snd (write_output env (Some p) out data st))) x = Some Dir"
proof -
  have t1: "trace st1 = trace st @ [Call (Op_makedirs p)]"
    using os_makedirs_trace [of env p st] assms(2) by simp
  obtain r2 st2 where o: "py_open_w env out st1 = (r2, st2)"
    by (cases "py_open_w env out st1")
  have t2: "trace st2 = trace st1 @ [Call (Op_open out)]"
    using py_open_w_trace [of env out st1] o by simp
  have w: "snd (write_output env (Some p) out data st) =
      (case r2 of Inl e \<Rightarrow> st2
       | Inr h \<Rightarrow> release_handle env (Some (fst (snd (print_lines env h data st2))))
           (snd (snd (print_lines env h data st2))))"
    using assms o
    by (cases r2) (simp_all add: write_output_def write_try_def release_handle_def
        split: prod.splits)
  show "\<exists>rest. trace (snd (write_output env (Some p) out data st)) =
           trace st @ [Call (Op_makedirs p), Call (Op_open out)] @ rest"
  proof (cases r2)
    case (Inl e)
    with w t1 t2 show ?thesis by simp
  next
    case (Inr h)
    from print_lines_trace [of env h data st2] obtain k where
      k: "trace (snd (snd (print_lines env h data st2))) =
            trace st2 @ map (\<lambda>l. Call (Op_print (h_name h) l)) (take k data)"
      by blast
    from Inr w k t1 t2 show ?thesis by (simp add: release_handle_trace)
  qed
  assume "node_at (files st1) x = Some Dir"
  from py_open_w_keeps_dirs [OF this, of env out] o
  have d2: "node_at (files st2) x = Some Dir" by simp
  show "node_at (files (snd (write_output env (Some p) out data st))) x = Some Dir"
  proof (cases r2)
    case (Inl e)
    with w d2 show ?thesis by simp
  next
    case (Inr h)
    from release_handle_keeps_dirs [OF print_lines_keeps_dirs [OF d2, of env h data]] Inr w
    show ?thesis by simp
  qed
qed

section \<open>Facts about upper and lower case\<close>

lemma char_upper_not_lower: "char_upper c \<notin> set ascii_lowercase"
  by (simp add: char_upper_def ascii_lowercase_def ascii_uppercase_def)

lemma char_lower_upper: "char_lower (char_upper c) = char_lower c"
  by (simp add: char_upper_def char_lower_def ascii_lowercase_def ascii_uppercase_def)

lemma char_upper_ascii: "(of_char c :: nat) < 128 \<Longrightarrow> (of_char (char_upper c) :: nat) < 128"
  by (simp add: char_upper_def ascii_lowercase_def ascii_uppercase_def)

lemma char_lower_ascii: "(of_char c :: nat) < 128 \<Longrightarrow> (of_char (char_lower c) :: nat) < 128"
  by (simp add: char_lower_def ascii_lowercase_def ascii_uppercase_def)

lemma str_upper_ascii: "is_ascii s \<Longrightarrow> is_ascii (str_upper s)"
  by (induction s) (simp_all add: is_ascii_def str_upper_def char_upper_ascii)

lemma str_lower_ascii: "is_ascii s \<Longrightarrow> is_ascii (str_lower s)"
  by (induction s) (simp_all add: is_ascii_def str_lower_def char_lower_ascii)

lemma is_ascii_append: "is_ascii (s @ t) = (is_ascii s \<and> is_ascii t)"
  by (simp add: is_ascii_def)

lemma char_lower_eq_s: "(char_lower c = CHR ''s'') = (c = CHR ''s'' \<or> c = CHR ''S'')"
  by (simp add: char_lower_def ascii_lowercase_def ascii_uppercase_def)

lemma char_lower_eq_d: "(char_lower c = CHR ''d'') = (c = CHR ''d'' \<or> c = CHR ''D'')"
  by (simp add: char_lower_def ascii_lowercase_def ascii_uppercase_def)

lemma char_lower_eq_f: "(char_lower c = CHR ''f'') = (c = CHR ''f'' \<or> c = CHR ''F'')"
  by (simp add: char_lower_def ascii_lowercase_def ascii_uppercase_def)

lemma char_lower_eq_m: "(char_lower c = CHR ''m'') = (c = CHR ''m'' \<or> c = CHR ''M'')"
  by (simp add: char_lower_def ascii_lowercase_def ascii_uppercase_def)

lemma char_lower_eq_o: "(char_lower c = CHR ''o'') = (c = CHR ''o'' \<or> c = CHR ''O'')"
  by (simp add: char_lower_def ascii_lowercase_def ascii_uppercase_def)

lemma char_lower_eq_l: "(char_lower c = CHR ''l'') = (c = CHR ''l'' \<or> c = CHR ''L'')"
  by (simp add: char_lower_def ascii_lowercase_def ascii_uppercase_def)

lemma char_lower_eq_2: "(char_lower c = CHR ''2'') = (c = CHR ''2'')"
  by (simp add: char_lower_def ascii_lowercase_def ascii_uppercase_def)

lemma map_eq_3:
  "(map f t = [x, y, z]) = (\<exists>a b c. t = [a, b, c] \<and> f a = x \<and> f b = y \<and> f c = z)"
  by (cases t; simp; cases "tl t"; simp; cases "tl (tl t)"; simp; blast)

lemma map_eq_4:
  "(map f t = [w, x, y, z]) =
     (\<exists>a b c d. t = [a, b, c, d] \<and> f a = w \<and> f b = x \<and> f c = y \<and> f d = z)"
  by (cases t; simp; cases "tl t"; simp; cases "tl (tl t)"; simp; cases "tl (tl (tl t))"; simp;
      blast)

lemma str_lower_eq_sdf:
  "(str_lower t = ''sdf'') =
     (\<exists>a b c. t = [a, b, c] \<and> (a = CHR ''s'' \<or> a = CHR ''S'') \<and>
        (b = CHR ''d'' \<or> b = CHR ''D'') \<and> (c = CHR ''f'' \<or> c = CHR ''F''))"
  unfolding str_lower_def map_eq_3 char_lower_eq_s char_lower_eq_d char_lower_eq_f ..

lemma str_lower_eq_mol2:
  "(str_lower t = ''mol2'') =
     (\<exists>a b c. t = [a, b, c, CHR ''2''] \<and> (a = CHR ''m'' \<or> a = CHR ''M'') \<and>
        (b = CHR ''o'' \<or> b = CHR ''O'') \<and> (c = CHR ''l'' \<or> c = CHR ''L''))"
  unfolding str_lower_def map_eq_4 char_lower_eq_m char_lower_eq_o char_lower_eq_l
    char_lower_eq_2
  by blast

section \<open>Facts about the order of the hosts\<close>

lemma fetch_hosts_unsupported_warning:
  "Log WARNING (Host_unsupported h t') \<in> set (snd (fetch_hosts env code t verify hosts)) \<Longrightarrow>
   t' = t \<and> (\<exists>caps. (h, caps) \<in> set hosts \<and> str_lower t \<notin> set caps)"
proof (induction hosts)
  case Nil
  then show ?case by simp
next
  case (Cons hc rest)
  obtain h0 caps0 where hc: "hc = (h0, caps0)" by (cases hc)
  obtain r evs where p: "priv_getpdb env code t h0 verify = (r, evs)"
    by (cases "priv_getpdb env code t h0 verify")
  have own: "Log WARNING (Host_unsupported h t') \<notin> set evs"
    using priv_getpdb_no_warning [of "Host_unsupported h t'" env code t h0 verify] p by simp
  from Cons.prems hc p own
  have "(str_lower t \<notin> set caps0 \<and> h = h0 \<and> t' = t) \<or>
        Log WARNING (Host_unsupported h t') \<in> set (snd (fetch_hosts env code t verify rest))"
    by (cases r) (auto split: if_splits prod.splits)
  then show ?case
  proof
    assume "str_lower t \<notin> set caps0 \<and> h = h0 \<and> t' = t"
    with hc show ?thesis by auto
  next
    assume "Log WARNING (Host_unsupported h t') \<in> set (snd (fetch_hosts env code t verify rest))"
    from Cons.IH [OF this] show ?thesis by auto
  qed
qed

lemma fetch_hosts_empty_all_fail:
  assumes "fst (fetch_hosts env code t verify hosts) = []"
    and "(g, gcaps) \<in> set hosts"
    and "str_lower t \<in> set gcaps"
  shows "isl (fst (priv_getpdb env code t g verify))"
  using assms
proof (induction hosts)
  case Nil
  then show ?case by simp
next
  case (Cons hc rest)
  obtain h0 caps0 where hc: "hc = (h0, caps0)" by (cases hc)
  obtain r evs where p: "priv_getpdb env code t h0 verify = (r, evs)"
    by (cases "priv_getpdb env code t h0 verify")
  have ne: "r \<noteq> Inr []"
    using priv_getpdb_data_not_Nil [of env code t h0 verify] p by simp
  from Cons.prems(1) hc p ne
  have rest: "fst (fetch_hosts env code t verify rest) = []"
    and here: "str_lower t \<in> set caps0 \<longrightarrow> isl r"
    by (cases r; auto split: if_splits prod.splits)+
  from Cons.prems(2) hc have "(g, gcaps) = (h0, caps0) \<or> (g, gcaps) \<in> set rest"
    by auto
  then show ?case
  proof
    assume "(g, gcaps) = (h0, caps0)"
    with here Cons.prems(3) p show ?thesis by simp
  next
    assume "(g, gcaps) \<in> set rest"
    from Cons.IH [OF rest this Cons.prems(3)] show ?thesis .
  qed
qed

lemma hosts_split:
  assumes "(h, caps) \<in> set hosts" and "distinct (map fst hosts)"
  shows "hosts = takeWhile (\<lambda>hc. fst hc \<noteq> h) hosts @
           (h, caps) # tl (dropWhile (\<lambda>hc. fst hc \<noteq> h) hosts)"
proof -
  let ?P = "\<lambda>hc. fst hc \<noteq> h"
  have ne: "dropWhile ?P hosts \<noteq> []"
    using assms(1) by (force simp: dropWhile_eq_Nil_conv)
  then obtain x post where d: "dropWhile ?P hosts = x # post"
    by (cases "dropWhile ?P hosts") auto
  from hd_dropWhile [OF ne] d have fx: "fst x = h" by simp
  have "x \<in> set hosts"
    using set_dropWhileD [of x ?P hosts] d by simp
  with fx have "(h, snd x) \<in> set hosts"
    by (metis prod.collapse)
  from eq_key_imp_eq_value [OF assms(2) this assms(1)] fx have "x = (h, caps)"
    by (metis prod.collapse)
  with d have "dropWhile ?P hosts = (h, caps) # tl (dropWhile ?P hosts)" by simp
  with takeWhile_dropWhile_id [of ?P hosts] show ?thesis by metis
qed

lemma hosts_before_other:
  "(g, gcaps) \<in> set (takeWhile (\<lambda>hc. fst hc \<noteq> h) hosts) \<Longrightarrow> g \<noteq> h"
  using set_takeWhileD [of "(g, gcaps)" "\<lambda>hc. fst hc \<noteq> h" hosts] by simp

section \<open>The default file type\<close>

text \<open>
  Claim C2. With no file type given, an identifier of fewer than 4 characters gets the
  type \<open>sdf\<close> and one of 4 or more characters the type \<open>cif\<close>, and
  \<open>getpdb\<close> then runs as if that type had been given.
\<close>

theorem default_type_by_length:
  "(length code < 4 \<longrightarrow> resolve_type code None = ''sdf'') \<and>
   (4 \<le> length code \<longrightarrow> resolve_type code None = ''cif'') \<and>
   getpdb env code None path verify st =
     getpdb env code (Some (if length code < 4 then ''sdf'' else ''cif'')) path verify st"
  by (simp add: getpdb_def resolve_type_def FILE_DEFAULT_SMALL_def FILE_DEFAULT_LARGE_def)

theorem default_type_by_length_witness:
  "length ''ATP'' < 4 \<and> resolve_type ''ATP'' None = ''sdf'' \<and>
   4 \<le> length ''1LYZ'' \<and> resolve_type ''1LYZ'' None = ''cif''"
  using default_type_by_length [of "''ATP''"] default_type_by_length [of "''1LYZ''"]
  by simp

section \<open>The structure-prediction host\<close>

text \<open>
  Claim C10. The registry entry of \<open>alphafold\<close> lists \<open>cif\<close>, \<open>bcif\<close> and
  \<open>pdb\<close>. Whenever the lower-cased type is one of them, \<open>_getpdb\<close> for the host
  \<open>alphafold\<close> does not raise "Invalid file type"; and in the loop of
  \<open>getpdb\<close> over the registry no host attempt ever ends with that exception, so no
  warning carrying it is logged.
\<close>

theorem alphafold_type_always_known:
  "map_of DATABASE_HOSTS ''alphafold'' = Some [''cif'', ''bcif'', ''pdb''] \<and>
   (str_lower t \<in> set [''cif'', ''bcif'', ''pdb''] \<longrightarrow>
      (\<forall>x. fst (priv_getpdb env code t ''alphafold'' verify) \<noteq> Inl (Invalid_file_type x))) \<and>
   (\<forall>x. Log WARNING (Exc (Invalid_file_type x)) \<notin>
      set (snd (fetch_hosts env code t verify DATABASE_HOSTS)))"
proof (intro conjI impI allI)
  show "map_of DATABASE_HOSTS ''alphafold'' = Some [''cif'', ''bcif'', ''pdb'']"
    by (simp add: DATABASE_HOSTS_def)
next
  fix x
  assume "str_lower t \<in> set [''cif'', ''bcif'', ''pdb'']"
  then show "fst (priv_getpdb env code t ''alphafold'' verify) \<noteq> Inl (Invalid_file_type x)"
    using priv_getpdb_invalid [of env code t "''alphafold''" verify x] by auto
next
  fix x
  show "Log WARNING (Exc (Invalid_file_type x)) \<notin>
      set (snd (fetch_hosts env code t verify DATABASE_HOSTS))"
  proof
    assume "Log WARNING (Exc (Invalid_file_type x)) \<in>
      set (snd (fetch_hosts env code t verify DATABASE_HOSTS))"
    from fetch_hosts_warning_exc [OF this] obtain h caps where
      h: "(h, caps) \<in> set DATABASE_HOSTS" "str_lower t \<in> set caps"
         "fst (priv_getpdb env code t h verify) = Inl (Invalid_file_type x)"
      by blast
    from priv_getpdb_invalid [OF h(3)] have
      a: "str_lower h = ''alphafold''" and
      n: "str_lower t \<noteq> ''cif'' \<and> str_lower t \<noteq> ''bcif'' \<and> str_lower t \<noteq> ''pdb''"
      by simp_all
    from hosts_alphafold [OF h(1) a] h(2) n show False by simp
  qed
qed

theorem alphafold_type_always_known_witness:
  "str_lower ''CIF'' \<in> set [''cif'', ''bcif'', ''pdb''] \<and>
   (\<forall>env code verify x.
      fst (priv_getpdb env code ''CIF'' ''alphafold'' verify) \<noteq> Inl (Invalid_file_type x))"
proof -
  have m: "str_lower ''CIF'' \<in> set [''cif'', ''bcif'', ''pdb'']"
    by (simp add: str_defs)
  with alphafold_type_always_known [of "''CIF''"] show ?thesis by blast
qed

section \<open>Order of the hosts and the first success\<close>

text \<open>
  Claim C5. The loop visits the hosts in the order \<open>rcsb\<close>, \<open>rcsb-ligand\<close>,
  \<open>pubchem\<close>, \<open>alphafold\<close>. When a host serves the type and its attempt
  succeeds, all hosts before it having been skipped or failed, the loop ends there: the
  data is that host's data, the events are those of the earlier hosts followed by those
  of the successful attempt, and no request is made for any later host. In general the
  loop over \<open>a @ b\<close> is the loop over \<open>a\<close> when that yields data, and otherwise
  the loop over \<open>a\<close> followed by the loop over \<open>b\<close>.
\<close>

theorem first_success_ends_iteration:
  assumes "DATABASE_HOSTS = pre @ (h, caps) # post"
    and "str_lower t \<in> set caps"
    and "priv_getpdb env code t h verify = (Inr data, evs)"
    and "\<forall>(g, gcaps) \<in> set pre.
           str_lower t \<in> set gcaps \<longrightarrow> isl (fst (priv_getpdb env code t g verify))"
  shows "map fst DATABASE_HOSTS = [''rcsb'', ''rcsb-ligand'', ''pubchem'', ''alphafold''] \<and>
         fetch_hosts env code t verify DATABASE_HOSTS =
           (data, snd (fetch_hosts env code t verify pre) @ evs) \<and>
         (\<forall>(g, gcaps) \<in> set post. \<forall>u v.
            Request g u v \<notin> set (snd (fetch_hosts env code t verify DATABASE_HOSTS))) \<and>
         fetch_hosts env code t verify (a @ b) =
           (if fst (fetch_hosts env code t verify a) \<noteq> [] then fetch_hosts env code t verify a
            else (fst (fetch_hosts env code t verify b),
                  snd (fetch_hosts env code t verify a) @ snd (fetch_hosts env code t verify b)))"
proof (intro conjI)
  show "map fst DATABASE_HOSTS = [''rcsb'', ''rcsb-ligand'', ''pubchem'', ''alphafold'']"
    by (simp add: DATABASE_HOSTS_def)
next
  have d: "data \<noteq> []"
    using priv_getpdb_data_not_Nil [of env code t h verify] assms(3) by auto
  have pre: "fst (fetch_hosts env code t verify pre) = []"
    using fetch_hosts_all_fail [OF assms(4)] .
  have here: "fetch_hosts env code t verify ((h, caps) # post) = (data, evs)"
    using assms(2,3) by simp
  show eq: "fetch_hosts env code t verify DATABASE_HOSTS =
      (data, snd (fetch_hosts env code t verify pre) @ evs)"
    unfolding assms(1) fetch_hosts_append [of env code t verify pre]
    using pre here by simp
  show "\<forall>(g, gcaps) \<in> set post. \<forall>u v.
      Request g u v \<notin> set (snd (fetch_hosts env code t verify DATABASE_HOSTS))"
  proof (clarify)
    fix g gcaps u v
    assume g: "(g, gcaps) \<in> set post"
      and r: "Request g u v \<in> set (snd (fetch_hosts env code t verify DATABASE_HOSTS))"
    have dist: "distinct (map fst pre @ h # map fst post)"
      using hosts_distinct unfolding assms(1) by simp
    from g have gp: "g \<in> fst ` set post" by force
    from r eq have "Request g u v \<in> set (snd (fetch_hosts env code t verify pre)) \<or>
        Request g u v \<in> set evs" by auto
    then show False
    proof
      assume "Request g u v \<in> set (snd (fetch_hosts env code t verify pre))"
      from fetch_hosts_request [OF this] have "g \<in> fst ` set pre" by force
      with gp dist show False by auto
    next
      assume "Request g u v \<in> set evs"
      with priv_getpdb_request [of g u v env code t h verify] assms(3) have "g = h" by simp
      with gp dist show False by auto
    qed
  qed
  show "fetch_hosts env code t verify (a @ b) =
      (if fst (fetch_hosts env code t verify a) \<noteq> [] then fetch_hosts env code t verify a
       else (fst (fetch_hosts env code t verify b),
             snd (fetch_hosts env code t verify a) @ snd (fetch_hosts env code t verify b)))"
    by (rule fetch_hosts_append)
qed

theorem first_success_ends_iteration_witness:
  "DATABASE_HOSTS =
     [(''rcsb'', [''pdb'', ''cif'', ''bcif'', ''xml''])] @
     (''rcsb-ligand'', [''cif'', ''sdf'', ''mol2'']) #
     [(''pubchem'', [''sdf'', ''json'', ''xml'', ''asnt'']),
      (''alphafold'', [''cif'', ''bcif'', ''pdb''])] \<and>
   str_lower ''cif'' \<in> set [''cif'', ''sdf'', ''mol2''] \<and>
   priv_getpdb (env_only ''https://files.rcsb.org/ligands/download/ATP.cif'' ''data_ATP'')
       ''ATP'' ''cif'' ''rcsb-ligand'' True =
     (Inr [''data_ATP''],
      [Log INFO (Fetching_from ''https://files.rcsb.org/ligands/download/ATP.cif''),
       Request ''rcsb-ligand'' ''https://files.rcsb.org/ligands/download/ATP.cif'' True]) \<and>
   isl (fst (priv_getpdb (env_only ''https://files.rcsb.org/ligands/download/ATP.cif'' ''data_ATP'')
       ''ATP'' ''cif'' ''rcsb'' True)) \<and>
   fst (fetch_hosts (env_only ''https://files.rcsb.org/ligands/download/ATP.cif'' ''data_ATP'')
       ''ATP'' ''cif'' True DATABASE_HOSTS) = [''data_ATP''] \<and>
   (\<forall>u v. Request ''alphafold'' u v \<notin>
      set (snd (fetch_hosts (env_only ''https://files.rcsb.org/ligands/download/ATP.cif'' ''data_ATP'')
        ''ATP'' ''cif'' True DATABASE_HOSTS)))"
proof -
  let ?E = "env_only ''https://files.rcsb.org/ligands/download/ATP.cif'' ''data_ATP''"
  have a: "DATABASE_HOSTS =
     [(''rcsb'', [''pdb'', ''cif'', ''bcif'', ''xml''])] @
     (''rcsb-ligand'', [''cif'', ''sdf'', ''mol2'']) #
     [(''pubchem'', [''sdf'', ''json'', ''xml'', ''asnt'']),
      (''alphafold'', [''cif'', ''bcif'', ''pdb''])]"
    by (simp add: DATABASE_HOSTS_def)
  have b: "str_lower ''cif'' \<in> set [''cif'', ''sdf'', ''mol2'']"
    by (simp add: str_defs)
  have c: "priv_getpdb ?E ''ATP'' ''cif'' ''rcsb-ligand'' True =
     (Inr [''data_ATP''],
      [Log INFO (Fetching_from ''https://files.rcsb.org/ligands/download/ATP.cif''),
       Request ''rcsb-ligand'' ''https://files.rcsb.org/ligands/download/ATP.cif'' True])"
    by (simp add: host_defs world_defs str_defs newline_def)
  have d: "isl (fst (priv_getpdb ?E ''ATP'' ''cif'' ''rcsb'' True))"
    by (simp add: host_defs world_defs str_defs newline_def)
  have e: "\<forall>(g, gcaps) \<in> set [(''rcsb'', [''pdb'', ''cif'', ''bcif'', ''xml''])].
      str_lower ''cif'' \<in> set gcaps \<longrightarrow> isl (fst (priv_getpdb ?E ''ATP'' ''cif'' g True))"
    using d by simp
  note r = first_success_ends_iteration [OF a b c e]
  from r have f: "fst (fetch_hosts ?E ''ATP'' ''cif'' True DATABASE_HOSTS) = [''data_ATP'']"
    by (simp only: fst_conv)
  have mem: "(''alphafold'', [''cif'', ''bcif'', ''pdb'']) \<in>
      set [(''pubchem'', [''sdf'', ''json'', ''xml'', ''asnt'']),
           (''alphafold'', [''cif'', ''bcif'', ''pdb''])]"
    by simp
  from r have "\<forall>(g, gcaps) \<in> set [(''pubchem'', [''sdf'', ''json'', ''xml'', ''asnt'']),
           (''alphafold'', [''cif'', ''bcif'', ''pdb''])]. \<forall>u v. Request g u v \<notin>
      set (snd (fetch_hosts ?E ''ATP'' ''cif'' True DATABASE_HOSTS))"
    by blast
  from bspec [OF this mem]
  have g: "\<forall>u v. Request ''alphafold'' u v \<notin>
      set (snd (fetch_hosts ?E ''ATP'' ''cif'' True DATABASE_HOSTS))"
    by blast
  from a b c d f g show ?thesis by blast
qed

section \<open>Failures are logged, not raised\<close>

text \<open>
  Claim C3. \<open>getpdb\<close> is a total function to the state it leaves: it returns on
  every path. When every host that serves the type fails, it leaves the files as they
  were, makes no call into the file system and logs the error "Could not fetch" last.
  An exception of a host attempt is logged as a warning and the loop goes on; an
  exception while the file is written is logged as an error and \<open>getpdb\<close> returns.
\<close>

theorem failures_are_logged:
  "((\<forall>(h, caps) \<in> set DATABASE_HOSTS.
        str_lower (resolve_type code ftype) \<in> set caps \<longrightarrow>
        isl (fst (priv_getpdb env code (resolve_type code ftype) h verify))) \<longrightarrow>
      getpdb env code ftype path verify st =
        st\<lparr>trace := trace st @
          snd (fetch_hosts env code (resolve_type code ftype) verify DATABASE_HOSTS) @
          [Log ERROR (Could_not_fetch code (resolve_type code ftype))]\<rparr> \<and>
      files (getpdb env code ftype path verify st) = files st \<and>
      (\<forall>op. Call op \<notin>
         set (drop (length (trace st)) (trace (getpdb env code ftype path verify st))))) \<and>
   (str_lower t \<in> set caps' \<and> priv_getpdb env code t h' verify = (Inl e, evs) \<longrightarrow>
      fetch_hosts env code t verify ((h', caps') # rest) =
        (fst (fetch_hosts env code t verify rest),
         evs @ Log WARNING (Exc e) # snd (fetch_hosts env code t verify rest))) \<and>
   (fetch_hosts env code (resolve_type code ftype) verify DATABASE_HOSTS = (data, evs') \<and>
    data \<noteq> [] \<and>
    write_output env path (output_name code (resolve_type code ftype) path) data
        (emit (evs' @ [Log INFO (Writing_output
           (output_name code (resolve_type code ftype) path))]) st) = (Inl e', st') \<longrightarrow>
      getpdb env code ftype path verify st = emit [Log ERROR (Exc e')] st')"
proof (intro conjI impI)
  define t0 where "t0 = resolve_type code ftype"
  assume all: "\<forall>(h, caps) \<in> set DATABASE_HOSTS.
        str_lower (resolve_type code ftype) \<in> set caps \<longrightarrow>
        isl (fst (priv_getpdb env code (resolve_type code ftype) h verify))"
  obtain data0 evs0 where f: "fetch_hosts env code t0 verify DATABASE_HOSTS = (data0, evs0)"
    by (cases "fetch_hosts env code t0 verify DATABASE_HOSTS")
  from fetch_hosts_all_fail [OF all] f have "data0 = []" by (simp add: t0_def)
  with f have g: "getpdb env code ftype path verify st =
      emit (evs0 @ [Log ERROR (Could_not_fetch code t0)]) st"
    using getpdb_not_fetched [of env code ftype verify evs0 path st] by (simp add: t0_def)
  show "getpdb env code ftype path verify st =
        st\<lparr>trace := trace st @
          snd (fetch_hosts env code (resolve_type code ftype) verify DATABASE_HOSTS) @
          [Log ERROR (Could_not_fetch code (resolve_type code ftype))]\<rparr>"
    using g f by (simp add: emit_def t0_def)
  show "files (getpdb env code ftype path verify st) = files st"
    using g by (simp add: emit_def)
  have "Call op \<notin> set evs0" for op
    using fetch_hosts_no_call [of op env code t0 verify DATABASE_HOSTS] f by simp
  then show "\<forall>op. Call op \<notin>
         set (drop (length (trace st)) (trace (getpdb env code ftype path verify st)))"
    using g by (simp add: emit_def)
next
  assume "str_lower t \<in> set caps' \<and> priv_getpdb env code t h' verify = (Inl e, evs)"
  then show "fetch_hosts env code t verify ((h', caps') # rest) =
        (fst (fetch_hosts env code t verify rest),
         evs @ Log WARNING (Exc e) # snd (fetch_hosts env code t verify rest))"
    by (simp split: prod.splits)
next
  assume a: "fetch_hosts env code (resolve_type code ftype) verify DATABASE_HOSTS = (data, evs') \<and>
    data \<noteq> [] \<and>
    write_output env path (output_name code (resolve_type code ftype) path) data
        (emit (evs' @ [Log INFO (Writing_output
           (output_name code (resolve_type code ftype) path))]) st) = (Inl e', st')"
  then show "getpdb env code ftype path verify st = emit [Log ERROR (Exc e')] st'"
    using getpdb_fetched [of env code ftype verify data evs' path st "Inl e'" st'] by simp
qed

theorem failures_are_logged_witness:
  "(\<forall>h. isl (fst (priv_getpdb env_down ''1LYZ'' (resolve_type ''1LYZ'' None) h False))) \<and>
   files (getpdb env_down ''1LYZ'' None None False initial_state) = files initial_state \<and>
   last (trace (getpdb env_down ''1LYZ'' None None False initial_state)) =
     Log ERROR (Could_not_fetch ''1LYZ'' ''cif'') \<and>
   str_lower ''cif'' \<in> set [''pdb'', ''cif'', ''bcif'', ''xml''] \<and>
   priv_getpdb env_down ''1LYZ'' ''cif'' ''rcsb'' False =
     (Inl (RequestException ''ConnectionError''),
      [Log INFO (Fetching_from ''https://files.rcsb.org/download/1LYZ.cif.gz''),
       Request ''rcsb'' ''https://files.rcsb.org/download/1LYZ.cif.gz'' False]) \<and>
   fetch_hosts env_down ''1LYZ'' ''cif'' False [(''rcsb'', [''pdb'', ''cif'', ''bcif'', ''xml''])] =
     ([], [Log INFO (Fetching_from ''https://files.rcsb.org/download/1LYZ.cif.gz''),
           Request ''rcsb'' ''https://files.rcsb.org/download/1LYZ.cif.gz'' False,
           Log WARNING (Exc (RequestException ''ConnectionError''))]) \<and>
   fetch_hosts (env_readonly ''https://files.rcsb.org/download/1LYZ.cif.gz'' ''gz:data'')
       ''1LYZ'' (resolve_type ''1LYZ'' None) False DATABASE_HOSTS =
     ([''data''],
      [Log INFO (Fetching_from ''https://files.rcsb.org/download/1LYZ.cif.gz''),
       Request ''rcsb'' ''https://files.rcsb.org/download/1LYZ.cif.gz'' False]) \<and>
   fst (write_output (env_readonly ''https://files.rcsb.org/download/1LYZ.cif.gz'' ''gz:data'')
       None ''1LYZ.cif'' [''data'']
       (emit [Log INFO (Fetching_from ''https://files.rcsb.org/download/1LYZ.cif.gz''),
              Request ''rcsb'' ''https://files.rcsb.org/download/1LYZ.cif.gz'' False,
              Log INFO (Writing_output ''1LYZ.cif'')] initial_state)) = Inl OSError \<and>
   trace (getpdb (env_readonly ''https://files.rcsb.org/download/1LYZ.cif.gz'' ''gz:data'')
       ''1LYZ'' None None False initial_state) =
     [Log INFO (Fetching_from ''https://files.rcsb.org/download/1LYZ.cif.gz''),
      Request ''rcsb'' ''https://files.rcsb.org/download/1LYZ.cif.gz'' False,
      Log INFO (Writing_output ''1LYZ.cif''),
      Call (Op_open ''1LYZ.cif''),
      Log ERROR (Exc OSError)]"
proof -
  let ?U = "''https://files.rcsb.org/download/1LYZ.cif.gz''"
  let ?E = "env_readonly ?U ''gz:data''"
  let ?evs = "[Log INFO (Fetching_from ?U), Request ''rcsb'' ?U False]"
  have t: "resolve_type ''1LYZ'' None = ''cif''"
    by (simp add: resolve_type_def FILE_DEFAULT_LARGE_def)
  have out: "output_name ''1LYZ'' ''cif'' None = ''1LYZ.cif''"
    by (simp add: output_name_def str_defs)
  have lc: "str_lower ''cif'' = ''cif''"
    by (simp add: str_defs)
  have down: "isl (fst (priv_getpdb env_down ''1LYZ'' ''cif'' h False))" for h
    by (simp add: host_defs env_down_def alphafold_file_url_def split: if_splits)
  have allA: "\<forall>(h, caps) \<in> set DATABASE_HOSTS.
      str_lower (resolve_type ''1LYZ'' None) \<in> set caps \<longrightarrow>
      isl (fst (priv_getpdb env_down ''1LYZ'' (resolve_type ''1LYZ'' None) h False))"
    using down by (simp add: t)
  note A = failures_are_logged [of "''1LYZ''" None env_down False None initial_state,
      THEN conjunct1, THEN mp, OF allA]
  have a1: "files (getpdb env_down ''1LYZ'' None None False initial_state) = files initial_state"
    using A by blast
  have a2: "last (trace (getpdb env_down ''1LYZ'' None None False initial_state)) =
      Log ERROR (Could_not_fetch ''1LYZ'' ''cif'')"
    using A by (simp add: t)
  have b1: "str_lower ''cif'' \<in> set [''pdb'', ''cif'', ''bcif'', ''xml'']"
    by (simp add: lc)
  have b2: "priv_getpdb env_down ''1LYZ'' ''cif'' ''rcsb'' False =
     (Inl (RequestException ''ConnectionError''), ?evs)"
    by (simp add: host_defs env_down_def str_defs)
  have b3: "fetch_hosts env_down ''1LYZ'' ''cif'' False [(''rcsb'', [''pdb'', ''cif'', ''bcif'', ''xml''])] =
     ([], ?evs @ [Log WARNING (Exc (RequestException ''ConnectionError''))])"
    using failures_are_logged [of "''1LYZ''" None env_down False None initial_state
        "''cif''" "[''pdb'', ''cif'', ''bcif'', ''xml'']" "''rcsb''"
        "RequestException ''ConnectionError''" ?evs "[]",
        THEN conjunct2, THEN conjunct1, THEN mp, OF conjI [OF b1 b2]]
    by simp
  have c1: "fetch_hosts ?E ''1LYZ'' (resolve_type ''1LYZ'' None) False DATABASE_HOSTS =
     ([''data''], ?evs)"
    by (simp add: t DATABASE_HOSTS_def host_defs world_defs str_defs newline_def)
  have c2: "fst (write_output ?E None ''1LYZ.cif'' [''data'']
       (emit (?evs @ [Log INFO (Writing_output ''1LYZ.cif'')]) initial_state)) = Inl OSError"
    by (simp add: write_output_def write_try_def release_handle_def close_handle_def file_write_def py_open_w_def world_defs emit_def)
  have c2': "write_output ?E None (output_name ''1LYZ'' (resolve_type ''1LYZ'' None) None) [''data'']
       (emit (?evs @ [Log INFO (Writing_output
          (output_name ''1LYZ'' (resolve_type ''1LYZ'' None) None))]) initial_state) =
     (Inl OSError, snd (write_output ?E None ''1LYZ.cif'' [''data'']
       (emit (?evs @ [Log INFO (Writing_output ''1LYZ.cif'')]) initial_state)))"
    using c2 by (simp add: t out prod_eq_iff)
  have ne: "[''data''] \<noteq> []" by simp
  note C = failures_are_logged [of "''1LYZ''" None ?E False None initial_state,
      THEN conjunct2, THEN conjunct2, THEN mp, OF conjI [OF c1 conjI [OF ne c2']]]
  have c3: "trace (getpdb ?E ''1LYZ'' None None False initial_state) =
     ?evs @ [Log INFO (Writing_output ''1LYZ.cif''), Call (Op_open ''1LYZ.cif''),
      Log ERROR (Exc OSError)]"
    unfolding C
    by (simp add: write_output_def write_try_def release_handle_def close_handle_def file_write_def py_open_w_def world_defs emit_def)
  have d0: "\<forall>h. isl (fst (priv_getpdb env_down ''1LYZ'' (resolve_type ''1LYZ'' None) h False))"
    using down by (simp add: t)
  have b3': "fetch_hosts env_down ''1LYZ'' ''cif'' False [(''rcsb'', [''pdb'', ''cif'', ''bcif'', ''xml''])] =
     ([], [Log INFO (Fetching_from ?U), Request ''rcsb'' ?U False,
           Log WARNING (Exc (RequestException ''ConnectionError''))])"
    using b3 by simp
  have c2'': "fst (write_output ?E None ''1LYZ.cif'' [''data'']
       (emit [Log INFO (Fetching_from ?U), Request ''rcsb'' ?U False,
              Log INFO (Writing_output ''1LYZ.cif'')] initial_state)) = Inl OSError"
    using c2 by simp
  have c3': "trace (getpdb ?E ''1LYZ'' None None False initial_state) =
     [Log INFO (Fetching_from ?U), Request ''rcsb'' ?U False,
      Log INFO (Writing_output ''1LYZ.cif''), Call (Op_open ''1LYZ.cif''),
      Log ERROR (Exc OSError)]"
    using c3 by simp
  show ?thesis
    by (intro conjI) (fact d0 a1 a2 b1 b2 b3' c1 c2'' c3')+
qed

section \<open>The verify flag\<close>

text \<open>Every request of a run of \<open>main\<close> carries as its verify flag the value of
  \<open>args.verify\<close>, which is whether \<open>--no-ssl-verify\<close> occurs.\<close>

lemma getpdb_requests_verify:
  assumes "Request h u v \<in> set (trace (getpdb env code ftype path verify st))"
  shows "Request h u v \<in> set (trace st) \<or> v = verify"
proof -
  from getpdb_trace [of env code ftype path verify st] obtain tl where
    tl: "trace (getpdb env code ftype path verify st) =
           trace st @ snd (fetch_hosts env code (resolve_type code ftype) verify DATABASE_HOSTS) @ tl"
        "\<forall>e \<in> set tl. (\<exists>m. e = Log ERROR m) \<or> (\<exists>m. e = Log INFO m) \<or> (\<exists>op. e = Call op)"
    by blast
  have "Request h u v \<notin> set tl" using tl(2) by auto
  with assms tl(1) have "Request h u v \<in> set (trace st) \<or>
      Request h u v \<in> set (snd (fetch_hosts env code (resolve_type code ftype) verify DATABASE_HOSTS))"
    by auto
  then show ?thesis
    using fetch_hosts_request [of h u v env code "resolve_type code ftype" verify DATABASE_HOSTS]
    by blast
qed

lemma foldl_getpdb_requests_verify:
  assumes "Request h u v \<in> set (trace (foldl (\<lambda>s code. getpdb env code ftype path verify s) st codes))"
  shows "Request h u v \<in> set (trace st) \<or> v = verify"
  using assms
proof (induction codes arbitrary: st)
  case Nil
  then show ?case by simp
next
  case (Cons c codes)
  from Cons.IH [of "getpdb env c ftype path verify st"] Cons.prems
  have "Request h u v \<in> set (trace (getpdb env c ftype path verify st)) \<or> v = verify"
    by simp
  with getpdb_requests_verify [of h u v env c ftype path verify st] show ?case by blast
qed

lemma main_requests_follow_flag:
  assumes "Request h u v \<in> set (trace (main env cl st))"
  shows "Request h u v \<in> set (trace st) \<or> v = cl_no_ssl_verify cl"
  using foldl_getpdb_requests_verify [of h u v env "cl_o cl" "cl_dir cl" "cl_no_ssl_verify cl"
      "st\<lparr>log_level := (if cl_verbose cl then INFO else ERROR)\<rparr>" "cl_code cl"] assms
  by (simp add: main_def parse_args_def Let_def)

text \<open>
  Claim C1. On the command line \<open>getpdb 1LYZ\<close>, without \<open>--no-ssl-verify\<close>,
  the request is made with \<open>verify=False\<close>: TLS verification is off by default.
  With \<open>--no-ssl-verify\<close> the request is made with \<open>verify=True\<close>. This is
  the opposite of the help text of the flag ("disable SSL verification when making
  requests") and of the default \<open>verify=True\<close> of \<open>getpdb\<close>.
\<close>

theorem default_run_requests_unverified:
  "trace (main (env_only ''https://files.rcsb.org/download/1LYZ.cif.gz'' ''gz:data'')
      \<lparr>cl_code = [''1LYZ''], cl_o = None, cl_dir = None, cl_verbose = False,
       cl_no_ssl_verify = False\<rparr> initial_state) =
     [Log INFO (Fetching_from ''https://files.rcsb.org/download/1LYZ.cif.gz''),
      Request ''rcsb'' ''https://files.rcsb.org/download/1LYZ.cif.gz'' False,
      Log INFO (Writing_output ''1LYZ.cif''),
      Call (Op_open ''1LYZ.cif''),
      Call (Op_print ''1LYZ.cif'' ''data''),
      Log INFO Finished] \<and>
   trace (main (env_only ''https://files.rcsb.org/download/1LYZ.cif.gz'' ''gz:data'')
      \<lparr>cl_code = [''1LYZ''], cl_o = None, cl_dir = None, cl_verbose = False,
       cl_no_ssl_verify = True\<rparr> initial_state) =
     [Log INFO (Fetching_from ''https://files.rcsb.org/download/1LYZ.cif.gz''),
      Request ''rcsb'' ''https://files.rcsb.org/download/1LYZ.cif.gz'' True,
      Log INFO (Writing_output ''1LYZ.cif''),
      Call (Op_open ''1LYZ.cif''),
      Call (Op_print ''1LYZ.cif'' ''data''),
      Log INFO Finished]"
proof -
  let ?U = "''https://files.rcsb.org/download/1LYZ.cif.gz''"
  let ?E = "env_only ?U ''gz:data''"
  have f: "fetch_hosts ?E ''1LYZ'' ''cif'' v DATABASE_HOSTS =
      ([''data''], [Log INFO (Fetching_from ?U), Request ''rcsb'' ?U v])" for v
    by (simp add: DATABASE_HOSTS_def host_defs world_defs str_defs newline_def)
  have t: "resolve_type ''1LYZ'' None = ''cif''"
    by (simp add: resolve_type_def FILE_DEFAULT_LARGE_def)
  have out: "output_name ''1LYZ'' ''cif'' None = ''1LYZ.cif''"
    by (simp add: output_name_def str_defs)
  have g: "trace (getpdb ?E ''1LYZ'' None None v (initial_state\<lparr>log_level := ERROR\<rparr>)) =
     [Log INFO (Fetching_from ?U), Request ''rcsb'' ?U v,
      Log INFO (Writing_output ''1LYZ.cif''), Call (Op_open ''1LYZ.cif''),
      Call (Op_print ''1LYZ.cif'' ''data''), Log INFO Finished]" for v
    by (simp add: getpdb_def Let_def t out f)
      (simp add: write_output_def write_try_def release_handle_def close_handle_def file_write_def py_open_w_def py_print_def open_w_def
        node_at_def components_def slash_def emit_def world_defs)
  show ?thesis
    by (simp add: main_def parse_args_def g)
qed

section \<open>The ligand host\<close>

text \<open>
  Claim C9. The identifier and the type are ASCII text; on such text \<open>str_upper\<close> and
  \<open>str_lower\<close> are Python's \<open>upper\<close> and \<open>lower\<close>. For the host
  \<open>rcsb-ligand\<close> the URL has \<open>_ideal\<close> after the upper-cased identifier
  exactly when the lower-cased type is \<open>sdf\<close> or \<open>mol2\<close>, and is the plain
  upper-cased identifier and the lower-cased type exactly when it is neither. The
  lower-cased type is \<open>sdf\<close> or \<open>mol2\<close> exactly when the type is one of these
  words with each letter in either case. The upper-cased identifier has the length of
  the identifier, holds no lower-case letter and differs from the identifier in case
  only; the URL is ASCII text. In both cases the data is the text of the response split
  at the newlines, with no decompression, after one request to that URL.
\<close>

theorem rcsb_ligand_ideal_suffix:
  assumes "is_ascii code" and "is_ascii ftype"
  shows "(rcsb_ligand_url code ftype =
      ''https://files.rcsb.org/ligands/download/'' @ str_upper code @ ''_ideal.'' @ str_lower ftype)
     = (str_lower ftype = ''sdf'' \<or> str_lower ftype = ''mol2'') \<and>
   (rcsb_ligand_url code ftype =
      ''https://files.rcsb.org/ligands/download/'' @ str_upper code @ ''.'' @ str_lower ftype)
     = (str_lower ftype \<noteq> ''sdf'' \<and> str_lower ftype \<noteq> ''mol2'') \<and>
   priv_getpdb env code ftype ''rcsb-ligand'' verify =
     (case http_get env (rcsb_ligand_url code ftype) verify of
        Get_raises m \<Rightarrow> Inl (RequestException m)
      | Get_returns r \<Rightarrow>
          if 400 \<le> resp_status_code r \<and> resp_status_code r < 600
          then Inl (HTTPError (resp_status_code r))
          else Inr (split_on newline (resp_text r)),
      [Log INFO (Fetching_from (rcsb_ligand_url code ftype)),
       Request ''rcsb-ligand'' (rcsb_ligand_url code ftype) verify]) \<and>
   (str_lower ftype = ''sdf'') =
     (\<exists>a b c. ftype = [a, b, c] \<and> (a = CHR ''s'' \<or> a = CHR ''S'') \<and>
        (b = CHR ''d'' \<or> b = CHR ''D'') \<and> (c = CHR ''f'' \<or> c = CHR ''F'')) \<and>
   (str_lower ftype = ''mol2'') =
     (\<exists>a b c. ftype = [a, b, c, CHR ''2''] \<and> (a = CHR ''m'' \<or> a = CHR ''M'') \<and>
        (b = CHR ''o'' \<or> b = CHR ''O'') \<and> (c = CHR ''l'' \<or> c = CHR ''L'')) \<and>
   length (str_upper code) = length code \<and>
   (\<forall>c \<in> set (str_upper code). c \<notin> set ascii_lowercase) \<and>
   str_lower (str_upper code) = str_lower code \<and>
   is_ascii (rcsb_ligand_url code ftype)"
proof -
  have low: "str_lower ''rcsb-ligand'' = ''rcsb-ligand''"
    by (simp add: str_defs)
  have ne: "str_lower ''rcsb-ligand'' \<noteq> ''rcsb''"
    by (simp add: low)
  have a: "(rcsb_ligand_url code ftype =
      ''https://files.rcsb.org/ligands/download/'' @ str_upper code @ ''_ideal.'' @ str_lower ftype)
     = (str_lower ftype = ''sdf'' \<or> str_lower ftype = ''mol2'')"
    by (simp add: rcsb_ligand_url_def)
  have b: "(rcsb_ligand_url code ftype =
      ''https://files.rcsb.org/ligands/download/'' @ str_upper code @ ''.'' @ str_lower ftype)
     = (str_lower ftype \<noteq> ''sdf'' \<and> str_lower ftype \<noteq> ''mol2'')"
    by (simp add: rcsb_ligand_url_def)
  have c: "priv_getpdb env code ftype ''rcsb-ligand'' verify =
     (case http_get env (rcsb_ligand_url code ftype) verify of
        Get_raises m \<Rightarrow> Inl (RequestException m)
      | Get_returns r \<Rightarrow>
          if 400 \<le> resp_status_code r \<and> resp_status_code r < 600
          then Inl (HTTPError (resp_status_code r))
          else Inr (split_on newline (resp_text r)),
      [Log INFO (Fetching_from (rcsb_ligand_url code ftype)),
       Request ''rcsb-ligand'' (rcsb_ligand_url code ftype) verify])"
    unfolding priv_getpdb_def get_checked_def
    by (simp only: low ne if_True if_False split: get_result.splits) (simp split: get_result.splits)
  have d: "length (str_upper code) = length code"
    by (simp add: str_upper_def)
  have e: "\<forall>c \<in> set (str_upper code). c \<notin> set ascii_lowercase"
    using char_upper_not_lower by (auto simp: str_upper_def)
  have f: "str_lower (str_upper code) = str_lower code"
    by (simp add: str_upper_def str_lower_def char_lower_upper)
  have pre: "is_ascii ''https://files.rcsb.org/ligands/download/''"
    and i1: "is_ascii ''_ideal.''" and i2: "is_ascii ''.''"
    by (simp_all add: is_ascii_def)
  have g: "is_ascii (rcsb_ligand_url code ftype)"
    using str_upper_ascii [OF assms(1)] str_lower_ascii [OF assms(2)] pre i1 i2
    unfolding rcsb_ligand_url_def by (simp only: is_ascii_append split: if_split) simp
  show ?thesis
    by (intro conjI) (fact a b c str_lower_eq_sdf str_lower_eq_mol2 d e f g)+
qed

theorem rcsb_ligand_ideal_suffix_witness:
  "is_ascii ''atp'' \<and> is_ascii ''SDF'' \<and> is_ascii ''Mol2'' \<and> is_ascii ''CIF'' \<and>
   rcsb_ligand_url ''atp'' ''SDF'' = ''https://files.rcsb.org/ligands/download/ATP_ideal.sdf'' \<and>
   rcsb_ligand_url ''atp'' ''Mol2'' = ''https://files.rcsb.org/ligands/download/ATP_ideal.mol2'' \<and>
   rcsb_ligand_url ''atp'' ''CIF'' = ''https://files.rcsb.org/ligands/download/ATP.cif'' \<and>
   priv_getpdb (env_only ''https://files.rcsb.org/ligands/download/ATP_ideal.sdf'' ''gz:a\<newline>b'')
       ''atp'' ''SDF'' ''rcsb-ligand'' True =
     (Inr [''gz:a'', ''b''],
      [Log INFO (Fetching_from ''https://files.rcsb.org/ligands/download/ATP_ideal.sdf''),
       Request ''rcsb-ligand'' ''https://files.rcsb.org/ligands/download/ATP_ideal.sdf'' True])"
proof -
  let ?U = "''https://files.rcsb.org/ligands/download/ATP_ideal.sdf''"
  have a1: "is_ascii ''atp''" and a2: "is_ascii ''SDF''" and a3: "is_ascii ''Mol2''"
    and a4: "is_ascii ''CIF''"
    by (simp_all add: is_ascii_def)
  note r1 = rcsb_ligand_ideal_suffix [OF a1 a2, of "env_only ?U ''gz:a\<newline>b''" True]
  note r2 = rcsb_ligand_ideal_suffix [OF a1 a3, of "env_only ?U ''gz:a\<newline>b''" True]
  note r3 = rcsb_ligand_ideal_suffix [OF a1 a4, of "env_only ?U ''gz:a\<newline>b''" True]
  from r1 [THEN conjunct1] have u1: "rcsb_ligand_url ''atp'' ''SDF'' = ?U"
    by (simp add: str_defs)
  from r2 [THEN conjunct1]
  have u2: "rcsb_ligand_url ''atp'' ''Mol2'' = ''https://files.rcsb.org/ligands/download/ATP_ideal.mol2''"
    by (simp add: str_defs)
  from r3 [THEN conjunct2, THEN conjunct1]
  have u3: "rcsb_ligand_url ''atp'' ''CIF'' = ''https://files.rcsb.org/ligands/download/ATP.cif''"
    by (simp add: str_defs)
  from r1 [THEN conjunct2, THEN conjunct2, THEN conjunct1]
  have p: "priv_getpdb (env_only ?U ''gz:a\<newline>b'') ''atp'' ''SDF'' ''rcsb-ligand'' True =
     (Inr [''gz:a'', ''b''], [Log INFO (Fetching_from ?U), Request ''rcsb-ligand'' ?U True])"
    by (simp add: u1 env_only_def ok_response_def newline_def)
  show ?thesis
    by (intro conjI) (fact a1 a2 a3 a4 u1 u2 u3 p)+
qed

section \<open>Hosts that do not serve the type\<close>

text \<open>
  Claim C4, as the code has it. For a host of the registry whose list does not contain
  the lower-cased type, a run of \<open>getpdb\<close> records no request made for that host,
  whatever the network answers. The warning for that host is logged exactly when the
  loop reaches it, that is when every host before it in the registry that serves the
  type has failed; the loop then goes on with the hosts after it, having done nothing
  else for that host.
\<close>

theorem unsupported_host_skipped:
  assumes "(h, caps) \<in> set DATABASE_HOSTS"
    and "str_lower (resolve_type code ftype) \<notin> set caps"
  shows "Request h u v \<notin>
           set (drop (length (trace st)) (trace (getpdb env code ftype path verify st))) \<and>
         (Log WARNING (Host_unsupported h (resolve_type code ftype)) \<in>
            set (drop (length (trace st)) (trace (getpdb env code ftype path verify st)))) =
           (\<forall>(g, gcaps) \<in> set (takeWhile (\<lambda>hc. fst hc \<noteq> h) DATABASE_HOSTS).
              str_lower (resolve_type code ftype) \<in> set gcaps \<longrightarrow>
              isl (fst (priv_getpdb env code (resolve_type code ftype) g verify))) \<and>
         ((\<forall>(g, gcaps) \<in> set (takeWhile (\<lambda>hc. fst hc \<noteq> h) DATABASE_HOSTS).
              str_lower (resolve_type code ftype) \<in> set gcaps \<longrightarrow>
              isl (fst (priv_getpdb env code (resolve_type code ftype) g verify))) \<longrightarrow>
          fetch_hosts env code (resolve_type code ftype) verify DATABASE_HOSTS =
            (fst (fetch_hosts env code (resolve_type code ftype) verify
                    (tl (dropWhile (\<lambda>hc. fst hc \<noteq> h) DATABASE_HOSTS))),
             snd (fetch_hosts env code (resolve_type code ftype) verify
                    (takeWhile (\<lambda>hc. fst hc \<noteq> h) DATABASE_HOSTS)) @
             Log WARNING (Host_unsupported h (resolve_type code ftype)) #
             snd (fetch_hosts env code (resolve_type code ftype) verify
                    (tl (dropWhile (\<lambda>hc. fst hc \<noteq> h) DATABASE_HOSTS)))))"
proof -
  define t where "t = resolve_type code ftype"
  define pre where "pre = takeWhile (\<lambda>hc. fst hc \<noteq> h) DATABASE_HOSTS"
  define post where "post = tl (dropWhile (\<lambda>hc. fst hc \<noteq> h) DATABASE_HOSTS)"
  define new where
    "new = drop (length (trace st)) (trace (getpdb env code ftype path verify st))"
  let ?W = "Log WARNING (Host_unsupported h t)"
  let ?fail = "\<forall>(g, gcaps) \<in> set pre.
      str_lower t \<in> set gcaps \<longrightarrow> isl (fst (priv_getpdb env code t g verify))"
  have nc: "str_lower t \<notin> set caps"
    using assms(2) by (simp add: t_def)
  have split: "DATABASE_HOSTS = pre @ (h, caps) # post"
    unfolding pre_def post_def by (rule hosts_split [OF assms(1) hosts_distinct])
  from getpdb_trace [of env code ftype path verify st] obtain tl where
    tl: "trace (getpdb env code ftype path verify st) =
           trace st @ snd (fetch_hosts env code t verify DATABASE_HOSTS) @ tl"
        "\<forall>e \<in> set tl. (\<exists>m. e = Log ERROR m) \<or> (\<exists>m. e = Log INFO m) \<or> (\<exists>op. e = Call op)"
    unfolding t_def by blast
  have new: "new = snd (fetch_hosts env code t verify DATABASE_HOSTS) @ tl"
    unfolding new_def using tl(1) by simp
  have here: "fetch_hosts env code t verify ((h, caps) # post) =
      (fst (fetch_hosts env code t verify post), ?W # snd (fetch_hosts env code t verify post))"
    using nc by (simp split: prod.splits)
  have req: "Request h u v \<notin> set new"
  proof -
    have "Request h u v \<notin> set (snd (fetch_hosts env code t verify DATABASE_HOSTS))"
    proof
      assume "Request h u v \<in> set (snd (fetch_hosts env code t verify DATABASE_HOSTS))"
      from fetch_hosts_request [OF this] obtain caps' where
        c: "(h, caps') \<in> set DATABASE_HOSTS" "str_lower t \<in> set caps'"
        by blast
      from eq_key_imp_eq_value [OF hosts_distinct assms(1) c(1)] c(2) nc
      show False by simp
    qed
    moreover have "Request h u v \<notin> set tl"
      using tl(2) by auto
    ultimately show ?thesis
      unfolding new by simp
  qed
  have reached: "fetch_hosts env code t verify DATABASE_HOSTS =
      (fst (fetch_hosts env code t verify post),
       snd (fetch_hosts env code t verify pre) @ ?W # snd (fetch_hosts env code t verify post))"
    if f: ?fail
  proof -
    from fetch_hosts_all_fail [OF f] have "fst (fetch_hosts env code t verify pre) = []" .
    then show ?thesis
      unfolding split fetch_hosts_append [of env code t verify pre "(h, caps) # post"] here
      by simp
  qed
  have warned: "(?W \<in> set new) = ?fail"
  proof
    assume w: "?W \<in> set new"
    have "?W \<notin> set tl"
      using tl(2) by auto
    with w have w': "?W \<in> set (snd (fetch_hosts env code t verify (pre @ (h, caps) # post)))"
      unfolding new split by simp
    have e: "fst (fetch_hosts env code t verify pre) = []"
    proof (rule ccontr)
      assume "fst (fetch_hosts env code t verify pre) \<noteq> []"
      with w' have "?W \<in> set (snd (fetch_hosts env code t verify pre))"
        unfolding fetch_hosts_append [of env code t verify pre "(h, caps) # post"] by simp
      from fetch_hosts_unsupported_warning [OF this] obtain c where "(h, c) \<in> set pre"
        by blast
      from hosts_before_other [OF this [unfolded pre_def]] show False by simp
    qed
    show ?fail
    proof (intro ballI, clarify)
      fix g gcaps
      assume "(g, gcaps) \<in> set pre" "str_lower t \<in> set gcaps"
      from fetch_hosts_empty_all_fail [OF e this]
      show "isl (fst (priv_getpdb env code t g verify))" .
    qed
  next
    assume ?fail
    from reached [OF this] show "?W \<in> set new"
      unfolding new by simp
  qed
  from req warned reached show ?thesis
    unfolding new_def t_def pre_def post_def by blast
qed

theorem unsupported_host_skipped_witness:
  "(''pubchem'', [''sdf'', ''json'', ''xml'', ''asnt'']) \<in> set DATABASE_HOSTS \<and>
   str_lower (resolve_type ''1LYZ'' None) \<notin> set [''sdf'', ''json'', ''xml'', ''asnt''] \<and>
   (\<forall>g. isl (fst (priv_getpdb env_down ''1LYZ'' (resolve_type ''1LYZ'' None) g True))) \<and>
   (\<forall>u v. Request ''pubchem'' u v \<notin>
      set (trace (getpdb env_down ''1LYZ'' None None True initial_state))) \<and>
   Log WARNING (Host_unsupported ''pubchem'' ''cif'') \<in>
      set (trace (getpdb env_down ''1LYZ'' None None True initial_state)) \<and>
   fetch_hosts env_down ''1LYZ'' ''cif'' True DATABASE_HOSTS =
     (fst (fetch_hosts env_down ''1LYZ'' ''cif'' True
             [(''alphafold'', [''cif'', ''bcif'', ''pdb''])]),
      snd (fetch_hosts env_down ''1LYZ'' ''cif'' True
             [(''rcsb'', [''pdb'', ''cif'', ''bcif'', ''xml'']),
              (''rcsb-ligand'', [''cif'', ''sdf'', ''mol2''])]) @
      Log WARNING (Host_unsupported ''pubchem'' ''cif'') #
      snd (fetch_hosts env_down ''1LYZ'' ''cif'' True
             [(''alphafold'', [''cif'', ''bcif'', ''pdb''])]))"
proof -
  let ?G = "getpdb env_down ''1LYZ'' None None True initial_state"
  let ?P = "\<lambda>hc :: string \<times> string list. fst hc \<noteq> ''pubchem''"
  have t: "resolve_type ''1LYZ'' None = ''cif''"
    by (simp add: resolve_type_def FILE_DEFAULT_LARGE_def)
  have a: "(''pubchem'', [''sdf'', ''json'', ''xml'', ''asnt'']) \<in> set DATABASE_HOSTS"
    by (simp add: DATABASE_HOSTS_def)
  have b: "str_lower (resolve_type ''1LYZ'' None) \<notin> set [''sdf'', ''json'', ''xml'', ''asnt'']"
    by (simp add: t str_defs)
  have down: "isl (fst (priv_getpdb env_down ''1LYZ'' ''cif'' g True))" for g
    by (simp add: host_defs env_down_def alphafold_file_url_def split: if_splits)
  have c: "\<forall>g. isl (fst (priv_getpdb env_down ''1LYZ'' (resolve_type ''1LYZ'' None) g True))"
    using down by (simp add: t)
  have fail: "\<forall>(g, gcaps) \<in> set (takeWhile ?P DATABASE_HOSTS).
      str_lower (resolve_type ''1LYZ'' None) \<in> set gcaps \<longrightarrow>
      isl (fst (priv_getpdb env_down ''1LYZ'' (resolve_type ''1LYZ'' None) g True))"
    using c by blast
  have tw: "takeWhile ?P DATABASE_HOSTS =
      [(''rcsb'', [''pdb'', ''cif'', ''bcif'', ''xml'']),
       (''rcsb-ligand'', [''cif'', ''sdf'', ''mol2''])]"
    by (simp add: DATABASE_HOSTS_def)
  have dw: "tl (dropWhile ?P DATABASE_HOSTS) = [(''alphafold'', [''cif'', ''bcif'', ''pdb''])]"
    by (simp add: DATABASE_HOSTS_def)
  have tr: "trace initial_state = []"
    by (simp add: initial_state_def)
  note r = unsupported_host_skipped [OF a b, where st = initial_state and env = env_down
      and path = None and verify = True]
  have d: "\<forall>u v. Request ''pubchem'' u v \<notin> set (trace ?G)"
    using r [THEN conjunct1] by (simp add: tr)
  have e: "Log WARNING (Host_unsupported ''pubchem'' ''cif'') \<in> set (trace ?G)"
    using r [THEN conjunct2, THEN conjunct1] fail by (simp add: tr t)
  have f: "fetch_hosts env_down ''1LYZ'' ''cif'' True DATABASE_HOSTS =
     (fst (fetch_hosts env_down ''1LYZ'' ''cif'' True
             [(''alphafold'', [''cif'', ''bcif'', ''pdb''])]),
      snd (fetch_hosts env_down ''1LYZ'' ''cif'' True
             [(''rcsb'', [''pdb'', ''cif'', ''bcif'', ''xml'']),
              (''rcsb-ligand'', [''cif'', ''sdf'', ''mol2''])]) @
      Log WARNING (Host_unsupported ''pubchem'' ''cif'') #
      snd (fetch_hosts env_down ''1LYZ'' ''cif'' True
             [(''alphafold'', [''cif'', ''bcif'', ''pdb''])]))"
    using r [THEN conjunct2, THEN conjunct2, THEN mp, OF fail]
    by (simp only: t tw dw)
  show ?thesis
    by (intro conjI) (fact a b c d e f)+
qed

text \<open>
  Claim C4 as stated fails in its second half: in the run for \<open>1LYZ\<close> in which the
  structure archive answers, the loop ends at \<open>rcsb\<close>; \<open>pubchem\<close> does not
  serve \<open>cif\<close> and no warning is logged for it.
\<close>

theorem unsupported_host_no_warning_after_success:
  "(''pubchem'', [''sdf'', ''json'', ''xml'', ''asnt'']) \<in> set DATABASE_HOSTS \<and>
   str_lower (resolve_type ''1LYZ'' None) \<notin> set [''sdf'', ''json'', ''xml'', ''asnt''] \<and>
   trace (getpdb (env_only ''https://files.rcsb.org/download/1LYZ.cif.gz'' ''gz:data'')
      ''1LYZ'' None None True initial_state) =
     [Log INFO (Fetching_from ''https://files.rcsb.org/download/1LYZ.cif.gz''),
      Request ''rcsb'' ''https://files.rcsb.org/download/1LYZ.cif.gz'' True,
      Log INFO (Writing_output ''1LYZ.cif''),
      Call (Op_open ''1LYZ.cif''),
      Call (Op_print ''1LYZ.cif'' ''data''),
      Log INFO Finished] \<and>
   Log WARNING (Host_unsupported ''pubchem'' ''cif'') \<notin>
     set (trace (getpdb (env_only ''https://files.rcsb.org/download/1LYZ.cif.gz'' ''gz:data'')
        ''1LYZ'' None None True initial_state))"
proof -
  let ?U = "''https://files.rcsb.org/download/1LYZ.cif.gz''"
  let ?E = "env_only ?U ''gz:data''"
  have t: "resolve_type ''1LYZ'' None = ''cif''"
    by (simp add: resolve_type_def FILE_DEFAULT_LARGE_def)
  have a: "(''pubchem'', [''sdf'', ''json'', ''xml'', ''asnt'']) \<in> set DATABASE_HOSTS"
    by (simp add: DATABASE_HOSTS_def)
  have b: "str_lower (resolve_type ''1LYZ'' None) \<notin> set [''sdf'', ''json'', ''xml'', ''asnt'']"
    by (simp add: t str_defs)
  have out: "output_name ''1LYZ'' ''cif'' None = ''1LYZ.cif''"
    by (simp add: output_name_def str_lower_cif)
  have f: "fetch_hosts ?E ''1LYZ'' ''cif'' True DATABASE_HOSTS =
      ([''data''], [Log INFO (Fetching_from ?U), Request ''rcsb'' ?U True])"
    by (simp add: DATABASE_HOSTS_def host_defs world_defs str_defs newline_def)
  have tr: "trace (getpdb ?E ''1LYZ'' None None True initial_state) =
     [Log INFO (Fetching_from ?U), Request ''rcsb'' ?U True,
      Log INFO (Writing_output ''1LYZ.cif''), Call (Op_open ''1LYZ.cif''),
      Call (Op_print ''1LYZ.cif'' ''data''), Log INFO Finished]"
    by (simp add: getpdb_def Let_def t out f)
      (simp add: write_output_def write_try_def release_handle_def close_handle_def
        file_write_def py_open_w_def py_print_def open_w_def
        node_at_def components_1LYZ_cif emit_def world_defs)
  have n: "Log WARNING (Host_unsupported ''pubchem'' ''cif'') \<notin>
     set (trace (getpdb ?E ''1LYZ'' None None True initial_state))"
    unfolding tr by simp
  show ?thesis
    by (intro conjI) (fact a b tr n)+
qed

section \<open>The written file\<close>

text \<open>
  Claim C7. The file is opened with truncation. \<open>print\<close> hands each line and one
  newline to the file object, which writes its pending text to the file when it chooses
  (\<open>early_flush\<close>); what is still pending is written, and the file closed, when the
  local variable \<open>handle\<close> is released as \<open>getpdb\<close> returns: the code has no
  \<open>close\<close> and no \<open>with\<close> block, the closing is CPython's. So after
  \<open>getpdb\<close> the open files are those open before it, on every path. And when the
  run ends with "Finished" and no write to the file fails, the file holds exactly the
  lines of the data, each followed by one newline, whatever it held before and whenever
  the pending text was written.
\<close>

theorem written_file_content:
  "open_handles (getpdb env code ftype path verify st) = open_handles st \<and>
   (last (trace (getpdb env code ftype path verify st)) = Log INFO Finished \<and>
    (\<forall>name chunk fs. \<not> fs_fault env (Op_write name chunk) fs) \<longrightarrow>
      node_at (files (getpdb env code ftype path verify st))
          (components (output_name code (resolve_type code ftype) path)) =
        Some (File (concat (map (\<lambda>l. l @ [newline])
          (fst (fetch_hosts env code (resolve_type code ftype) verify DATABASE_HOSTS))))))"
proof (intro conjI impI)
  show "open_handles (getpdb env code ftype path verify st) = open_handles st"
    by (rule getpdb_handles)
next
  assume a: "last (trace (getpdb env code ftype path verify st)) = Log INFO Finished \<and>
    (\<forall>name chunk fs. \<not> fs_fault env (Op_write name chunk) fs)"
  from getpdb_finished [of env code ftype path verify st] a obtain data evs st' where
    f: "fetch_hosts env code (resolve_type code ftype) verify DATABASE_HOSTS = (data, evs)" and
    w: "write_output env path (output_name code (resolve_type code ftype) path) data
        (emit (evs @ [Log INFO (Writing_output
           (output_name code (resolve_type code ftype) path))]) st) = (Inr (), st')" and
    g: "getpdb env code ftype path verify st = emit [Log INFO Finished] st'"
    by blast
  from write_output_ok [OF w] a f g
  show "node_at (files (getpdb env code ftype path verify st))
          (components (output_name code (resolve_type code ftype) path)) =
        Some (File (concat (map (\<lambda>l. l @ [newline])
          (fst (fetch_hosts env code (resolve_type code ftype) verify DATABASE_HOSTS)))))"
    by (simp add: emit_def)
qed

theorem written_file_content_witness:
  "last (trace (getpdb
      ((env_only ''https://files.rcsb.org/download/1LYZ.cif.gz'' ''gz:data_1LYZ\<newline>#'')
         \<lparr>early_flush := (\<lambda>pending. 4)\<rparr>)
      ''1LYZ'' None None True
      (initial_state\<lparr>files := [[''1LYZ.cif''] \<mapsto> File ''old content'']\<rparr>))) = Log INFO Finished \<and>
   (\<forall>name chunk fs. \<not> fs_fault
      ((env_only ''https://files.rcsb.org/download/1LYZ.cif.gz'' ''gz:data_1LYZ\<newline>#'')
         \<lparr>early_flush := (\<lambda>pending. 4)\<rparr>) (Op_write name chunk) fs) \<and>
   node_at (files (getpdb
      ((env_only ''https://files.rcsb.org/download/1LYZ.cif.gz'' ''gz:data_1LYZ\<newline>#'')
         \<lparr>early_flush := (\<lambda>pending. 4)\<rparr>)
      ''1LYZ'' None None True
      (initial_state\<lparr>files := [[''1LYZ.cif''] \<mapsto> File ''old content'']\<rparr>))) [''1LYZ.cif''] =
     Some (File ''data_1LYZ\<newline>#\<newline>'') \<and>
   open_handles (getpdb
      ((env_only ''https://files.rcsb.org/download/1LYZ.cif.gz'' ''gz:data_1LYZ\<newline>#'')
         \<lparr>early_flush := (\<lambda>pending. 4)\<rparr>)
      ''1LYZ'' None None True
      (initial_state\<lparr>files := [[''1LYZ.cif''] \<mapsto> File ''old content'']\<rparr>)) = []"
proof -
  let ?U = "''https://files.rcsb.org/download/1LYZ.cif.gz''"
  let ?E = "(env_only ?U ''gz:data_1LYZ\<newline>#'')\<lparr>early_flush := (\<lambda>pending. 4)\<rparr>"
  let ?S = "initial_state\<lparr>files := [[''1LYZ.cif''] \<mapsto> File ''old content'']\<rparr>"
  have t: "resolve_type ''1LYZ'' None = ''cif''"
    by (simp add: resolve_type_def FILE_DEFAULT_LARGE_def)
  have out: "output_name ''1LYZ'' ''cif'' None = ''1LYZ.cif''"
    by (simp add: output_name_def str_defs)
  have comp: "components ''1LYZ.cif'' = [''1LYZ.cif'']"
    by (simp add: components_def slash_def)
  have f: "fetch_hosts ?E ''1LYZ'' ''cif'' True DATABASE_HOSTS =
      ([''data_1LYZ'', ''#''], [Log INFO (Fetching_from ?U), Request ''rcsb'' ?U True])"
    by (simp add: DATABASE_HOSTS_def host_defs world_defs str_defs newline_def)
  have l: "last (trace (getpdb ?E ''1LYZ'' None None True ?S)) = Log INFO Finished"
    by (simp add: getpdb_def Let_def t out f)
      (simp add: write_output_def write_try_def release_handle_def close_handle_def
        file_write_def py_open_w_def py_print_def open_w_def
        node_at_def comp emit_def world_defs)
  have nf: "\<forall>name chunk fs. \<not> fs_fault ?E (Op_write name chunk) fs"
    by (simp add: env_only_def)
  note r = written_file_content [of ?E "''1LYZ''" None None True ?S]
  from r l nf have c: "node_at (files (getpdb ?E ''1LYZ'' None None True ?S)) [''1LYZ.cif''] =
       Some (File ''data_1LYZ\<newline>#\<newline>'')"
    by (simp add: t out comp f newline_def)
  from r have h: "open_handles (getpdb ?E ''1LYZ'' None None True ?S) = []"
    by (simp add: initial_state_def)
  show ?thesis
    by (intro conjI) (fact l nf c h)+
qed

text \<open>
  The condition on the writes is needed. \<open>print\<close> raises only when a write it
  performs itself fails; when all the text is still pending at the end of the
  \<open>try\<close> block and the write at the release fails, the text is lost and the run
  has logged "Finished" all the same.
\<close>

lemma finished_over_lost_text:
  "last (trace (getpdb
      ((env_only ''https://files.rcsb.org/download/1LYZ.cif.gz'' ''gz:data_1LYZ\<newline>#'')
         \<lparr>fs_fault := (\<lambda>op fs. case op of Op_write n c \<Rightarrow> True | _ \<Rightarrow> False)\<rparr>)
      ''1LYZ'' None None True initial_state)) = Log INFO Finished \<and>
   node_at (files (getpdb
      ((env_only ''https://files.rcsb.org/download/1LYZ.cif.gz'' ''gz:data_1LYZ\<newline>#'')
         \<lparr>fs_fault := (\<lambda>op fs. case op of Op_write n c \<Rightarrow> True | _ \<Rightarrow> False)\<rparr>)
      ''1LYZ'' None None True initial_state)) [''1LYZ.cif''] = Some (File []) \<and>
   open_handles (getpdb
      ((env_only ''https://files.rcsb.org/download/1LYZ.cif.gz'' ''gz:data_1LYZ\<newline>#'')
         \<lparr>fs_fault := (\<lambda>op fs. case op of Op_write n c \<Rightarrow> True | _ \<Rightarrow> False)\<rparr>)
      ''1LYZ'' None None True initial_state) = []"
proof -
  let ?U = "''https://files.rcsb.org/download/1LYZ.cif.gz''"
  let ?E = "(env_only ?U ''gz:data_1LYZ\<newline>#'')
         \<lparr>fs_fault := (\<lambda>op fs. case op of Op_write n c \<Rightarrow> True | _ \<Rightarrow> False)\<rparr>"
  have t: "resolve_type ''1LYZ'' None = ''cif''"
    by (simp add: resolve_type_def FILE_DEFAULT_LARGE_def)
  have out: "output_name ''1LYZ'' ''cif'' None = ''1LYZ.cif''"
    by (simp add: output_name_def str_lower_cif)
  have f: "fetch_hosts ?E ''1LYZ'' ''cif'' True DATABASE_HOSTS =
      ([''data_1LYZ'', ''#''], [Log INFO (Fetching_from ?U), Request ''rcsb'' ?U True])"
    by (simp add: DATABASE_HOSTS_def host_defs world_defs str_defs newline_def)
  have g: "getpdb ?E ''1LYZ'' None None True initial_state =
      \<lparr>trace = [Log INFO (Fetching_from ?U), Request ''rcsb'' ?U True,
          Log INFO (Writing_output ''1LYZ.cif''), Call (Op_open ''1LYZ.cif''),
          Call (Op_print ''1LYZ.cif'' ''data_1LYZ''), Call (Op_print ''1LYZ.cif'' ''#''),
          Log INFO Finished],
        files = [[''1LYZ.cif''] \<mapsto> File []], open_handles = [], log_level = log_level initial_state\<rparr>"
    by (simp add: getpdb_def Let_def t out f)
      (simp add: write_output_def write_try_def release_handle_def close_handle_def
        file_write_def py_open_w_def py_print_def open_w_def
        node_at_def components_1LYZ_cif emit_def world_defs)
  show ?thesis
    unfolding g by (simp add: node_at_def)
qed

section \<open>The identifier 1LYZ\<close>

text \<open>
  Claim C6, as the code has it. For the identifier \<open>1LYZ\<close> with no type given the
  type is \<open>cif\<close>. When the request to the structure archive answers with a status
  that is no error and a body that decompresses to ASCII text, no call into the file
  system fails and \<open>1LYZ.cif\<close> is not a directory, the run ends with "Finished"
  and the file written is \<open>1LYZ.cif\<close>, the identifier as given followed by the
  lower-cased type: it holds the lines of the decompressed text, each followed by a
  newline, which is the decompressed text and one more newline.
\<close>

theorem lysozyme_output_file:
  assumes "http_get env ''https://files.rcsb.org/download/1LYZ.cif.gz'' verify = Get_returns r"
    and "\<not> (400 \<le> resp_status_code r \<and> resp_status_code r < 600)"
    and "gzip_decompress env (resp_content r) = Some raw"
    and "list_all (\<lambda>c. (of_char c :: nat) < 128) raw"
    and "\<forall>op fs. \<not> fs_fault env op fs"
    and "files st [''1LYZ.cif''] \<noteq> Some Dir"
  shows "resolve_type ''1LYZ'' None = ''cif'' \<and>
         output_name ''1LYZ'' (resolve_type ''1LYZ'' None) None = ''1LYZ.cif'' \<and>
         fst (fetch_hosts env ''1LYZ'' ''cif'' verify DATABASE_HOSTS) = split_on newline raw \<and>
         last (trace (getpdb env ''1LYZ'' None None verify st)) = Log INFO Finished \<and>
         files (getpdb env ''1LYZ'' None None verify st) [''1LYZ.cif''] =
           Some (File (concat (map (\<lambda>l. l @ [newline]) (split_on newline raw)))) \<and>
         concat (map (\<lambda>l. l @ [newline]) (split_on newline raw)) = raw @ [newline]"
proof -
  let ?U = "''https://files.rcsb.org/download/1LYZ.cif.gz''"
  let ?evs = "[Log INFO (Fetching_from ?U), Request ''rcsb'' ?U verify]"
  have t: "resolve_type ''1LYZ'' None = ''cif''"
    by (simp add: resolve_type_def FILE_DEFAULT_LARGE_def)
  have out: "output_name ''1LYZ'' ''cif'' None = ''1LYZ.cif''"
    by (simp add: output_name_def str_lower_cif)
  have url: "rcsb_url ''1LYZ'' ''cif'' = ?U"
    by (simp add: rcsb_url_def str_upper_1LYZ str_lower_cif)
  have low: "str_lower ''rcsb'' = ''rcsb''"
    by (simp add: str_defs)
  have p: "priv_getpdb env ''1LYZ'' ''cif'' ''rcsb'' verify = (Inr (split_on newline raw), ?evs)"
    using assms(1-4)
    by (simp add: priv_getpdb_def low url get_checked_def gunzip_ascii_def decode_ascii_def)
  have f: "fetch_hosts env ''1LYZ'' ''cif'' verify DATABASE_HOSTS = (split_on newline raw, ?evs)"
    using p by (simp add: DATABASE_HOSTS_def str_lower_cif)
  let ?st1 = "emit (?evs @ [Log INFO (Writing_output ''1LYZ.cif'')]) st"
  obtain res st' where w: "write_output env None ''1LYZ.cif'' (split_on newline raw) ?st1 = (res, st')"
    by (cases "write_output env None ''1LYZ.cif'' (split_on newline raw) ?st1")
  have nd: "node_at (files ?st1) (components ''1LYZ.cif'') \<noteq> Some Dir"
    using assms(6) by (simp add: components_1LYZ_cif node_at_def emit_def)
  have pd: "first_not_dir (files ?st1) [] (butlast (components ''1LYZ.cif'')) = None"
    by (simp add: components_1LYZ_cif)
  from write_output_total [OF assms(5) nd pd, of "split_on newline raw"] w
  have res: "res = Inr ()" by simp
  have g: "getpdb env ''1LYZ'' None None verify st = emit [Log INFO Finished] st'"
    using getpdb_fetched [of env "''1LYZ''" None verify "split_on newline raw" ?evs None st res st']
      f w split_on_not_Nil [of newline raw] res
    by (simp add: t out)
  have nw: "\<forall>name chunk fs. \<not> fs_fault env (Op_write name chunk) fs"
    using assms(5) by simp
  from write_output_ok [OF w [unfolded res] nw]
  have "node_at (files st') [''1LYZ.cif''] =
      Some (File (concat (map (\<lambda>l. l @ [newline]) (split_on newline raw))))"
    by (simp add: components_1LYZ_cif)
  then have c: "files (getpdb env ''1LYZ'' None None verify st) [''1LYZ.cif''] =
      Some (File (concat (map (\<lambda>l. l @ [newline]) (split_on newline raw))))"
    unfolding g by (simp add: node_at_def emit_def)
  have l: "last (trace (getpdb env ''1LYZ'' None None verify st)) = Log INFO Finished"
    unfolding g by (simp add: emit_def)
  from t out f l c concat_split_on [of newline raw] show ?thesis
    by simp
qed

theorem lysozyme_output_file_witness:
  "http_get (env_only ''https://files.rcsb.org/download/1LYZ.cif.gz'' ''gz:data_1LYZ\<newline>#'')
      ''https://files.rcsb.org/download/1LYZ.cif.gz'' True =
     Get_returns (ok_response ''gz:data_1LYZ\<newline>#'') \<and>
   \<not> (400 \<le> resp_status_code (ok_response ''gz:data_1LYZ\<newline>#'') \<and>
      resp_status_code (ok_response ''gz:data_1LYZ\<newline>#'') < 600) \<and>
   gzip_decompress (env_only ''https://files.rcsb.org/download/1LYZ.cif.gz'' ''gz:data_1LYZ\<newline>#'')
      (resp_content (ok_response ''gz:data_1LYZ\<newline>#'')) = Some ''data_1LYZ\<newline>#'' \<and>
   list_all (\<lambda>c. (of_char c :: nat) < 128) ''data_1LYZ\<newline>#'' \<and>
   (\<forall>op fs. \<not> fs_fault
      (env_only ''https://files.rcsb.org/download/1LYZ.cif.gz'' ''gz:data_1LYZ\<newline>#'') op fs) \<and>
   files initial_state [''1LYZ.cif''] \<noteq> Some Dir \<and>
   files (getpdb (env_only ''https://files.rcsb.org/download/1LYZ.cif.gz'' ''gz:data_1LYZ\<newline>#'')
      ''1LYZ'' None None True initial_state) [''1LYZ.cif''] =
     Some (File ''data_1LYZ\<newline>#\<newline>'')"
proof -
  let ?U = "''https://files.rcsb.org/download/1LYZ.cif.gz''"
  let ?B = "''gz:data_1LYZ\<newline>#''"
  let ?E = "env_only ?U ?B"
  have a: "http_get ?E ?U True = Get_returns (ok_response ?B)"
    by (simp add: env_only_def)
  have b: "\<not> (400 \<le> resp_status_code (ok_response ?B) \<and> resp_status_code (ok_response ?B) < 600)"
    by (simp add: ok_response_def)
  have c: "gzip_decompress ?E (resp_content (ok_response ?B)) = Some ''data_1LYZ\<newline>#''"
    by (simp add: env_only_def ok_response_def)
  have d: "list_all (\<lambda>c. (of_char c :: nat) < 128) ''data_1LYZ\<newline>#''"
    by simp
  have e: "\<forall>op fs. \<not> fs_fault ?E op fs"
    by (simp add: env_only_def)
  have f: "files initial_state [''1LYZ.cif''] \<noteq> Some Dir"
    by (simp add: initial_state_def)
  have sp: "concat (map (\<lambda>l. l @ [newline]) (split_on newline ''data_1LYZ\<newline>#'')) =
      ''data_1LYZ\<newline>#\<newline>''"
    by (simp add: newline_def)
  from lysozyme_output_file [OF a b c d e f]
  have g: "files (getpdb ?E ''1LYZ'' None None True initial_state) [''1LYZ.cif''] =
     Some (File ''data_1LYZ\<newline>#\<newline>'')"
    unfolding sp by blast
  show ?thesis
    by (intro conjI) (fact a b c d e f g)+
qed

text \<open>
  Claim C6 as stated fails in the name of the file: after the run for \<open>1LYZ\<close>
  in which the structure archive answers, there is no file \<open>1lyz.cif\<close>; the file
  written is \<open>1LYZ.cif\<close>.
\<close>

theorem lysozyme_file_keeps_case:
  "resolve_type ''1LYZ'' None = ''cif'' \<and>
   fst (priv_getpdb (env_only ''https://files.rcsb.org/download/1LYZ.cif.gz'' ''gz:data_1LYZ\<newline>#'')
      ''1LYZ'' ''cif'' ''rcsb'' True) = Inr [''data_1LYZ'', ''#''] \<and>
   output_name ''1LYZ'' (resolve_type ''1LYZ'' None) None = ''1LYZ.cif'' \<and>
   node_at (files (getpdb (env_only ''https://files.rcsb.org/download/1LYZ.cif.gz'' ''gz:data_1LYZ\<newline>#'')
      ''1LYZ'' None None True initial_state)) (components ''1lyz.cif'') = None \<and>
   node_at (files (getpdb (env_only ''https://files.rcsb.org/download/1LYZ.cif.gz'' ''gz:data_1LYZ\<newline>#'')
      ''1LYZ'' None None True initial_state)) (components ''1LYZ.cif'') =
     Some (File ''data_1LYZ\<newline>#\<newline>'')"
proof -
  let ?U = "''https://files.rcsb.org/download/1LYZ.cif.gz''"
  let ?E = "env_only ?U ''gz:data_1LYZ\<newline>#''"
  have t: "resolve_type ''1LYZ'' None = ''cif''"
    by (simp add: resolve_type_def FILE_DEFAULT_LARGE_def)
  have out: "output_name ''1LYZ'' ''cif'' None = ''1LYZ.cif''"
    by (simp add: output_name_def str_lower_cif)
  have p: "fst (priv_getpdb ?E ''1LYZ'' ''cif'' ''rcsb'' True) = Inr [''data_1LYZ'', ''#'']"
    by (simp add: host_defs world_defs str_defs newline_def)
  have f: "fetch_hosts ?E ''1LYZ'' ''cif'' True DATABASE_HOSTS =
      ([''data_1LYZ'', ''#''], [Log INFO (Fetching_from ?U), Request ''rcsb'' ?U True])"
    by (simp add: DATABASE_HOSTS_def host_defs world_defs str_defs newline_def)
  have lower: "components ''1lyz.cif'' = [''1lyz.cif'']"
    by (simp add: components_def slash_def)
  have fs: "files (getpdb ?E ''1LYZ'' None None True initial_state) =
      [[''1LYZ.cif''] \<mapsto> File ''data_1LYZ\<newline>#\<newline>'']"
    by (simp add: getpdb_def Let_def t out f)
      (simp add: write_output_def write_try_def release_handle_def close_handle_def file_write_def py_open_w_def py_print_def open_w_def
        node_at_def components_1LYZ_cif emit_def world_defs newline_def)
  have n1: "node_at (files (getpdb ?E ''1LYZ'' None None True initial_state)) (components ''1lyz.cif'') = None"
    unfolding fs lower by (simp add: node_at_def)
  have n2: "node_at (files (getpdb ?E ''1LYZ'' None None True initial_state)) (components ''1LYZ.cif'') =
     Some (File ''data_1LYZ\<newline>#\<newline>'')"
    unfolding fs components_1LYZ_cif by (simp add: node_at_def)
  from t out p n1 n2 show ?thesis by simp
qed

section \<open>The output directory\<close>

text \<open>
  Claim C8. When the data was fetched and a directory is given, \<open>os.makedirs\<close>
  is the first call into the file system and the file is opened after it. When that
  call meets no fault and no regular file on the way, the directory and every
  directory above it exist when \<open>getpdb\<close> returns. Creating it again is then no
  error and changes no file: both right after a first creation and after the whole
  run.
\<close>

theorem output_directory_created:
  assumes "fetch_hosts env code (resolve_type code ftype) verify DATABASE_HOSTS = (data, evs)"
    and "data \<noteq> []"
    and "p \<noteq> []"
    and "\<not> fs_fault env (Op_makedirs p) (files st)"
    and "\<forall>n c. n \<le> length (components p) \<longrightarrow>
           node_at (files st) (take n (components p)) \<noteq> Some (File c)"
  shows "(\<exists>rest. trace (getpdb env code ftype (Some p) verify st) =
            trace st @ evs @
            [Log INFO (Writing_output (output_name code (resolve_type code ftype) (Some p))),
             Call (Op_makedirs p),
             Call (Op_open (output_name code (resolve_type code ftype) (Some p)))] @ rest) \<and>
         (\<forall>op. Call op \<notin> set evs) \<and>
         (\<forall>n. n \<le> length (components p) \<longrightarrow>
            node_at (files (getpdb env code ftype (Some p) verify st)) (take n (components p)) =
              Some Dir) \<and>
         (\<not> fs_fault env (Op_makedirs p) (files (getpdb env code ftype (Some p) verify st)) \<longrightarrow>
            os_makedirs env p (getpdb env code ftype (Some p) verify st) =
              (Inr (), emit [Call (Op_makedirs p)] (getpdb env code ftype (Some p) verify st))) \<and>
         (os_makedirs env p s = (Inr (), s') \<and> \<not> fs_fault env (Op_makedirs p) (files s') \<longrightarrow>
            os_makedirs env p s' = (Inr (), emit [Call (Op_makedirs p)] s'))"
proof -
  define out where "out = output_name code (resolve_type code ftype) (Some p)"
  define st0 where "st0 = emit (evs @ [Log INFO (Writing_output out)]) st"
  have fst0: "files st0 = files st" by (simp add: st0_def emit_def)
  from os_makedirs_succeeds [of p env st0] assms(3,4,5) fst0
  obtain fs' where mk: "mkdirs (files st) [] (components p) = Inr fs'"
    and om: "os_makedirs env p st0 = (Inr (), (emit [Call (Op_makedirs p)] st0)\<lparr>files := fs'\<rparr>)"
    by auto
  let ?st1 = "(emit [Call (Op_makedirs p)] st0)\<lparr>files := fs'\<rparr>"
  obtain r st' where w: "write_output env (Some p) out data st0 = (r, st')"
    by (cases "write_output env (Some p) out data st0")
  have g: "getpdb env code ftype (Some p) verify st =
      emit [case r of Inl error \<Rightarrow> Log ERROR (Exc error) | Inr u \<Rightarrow> Log INFO Finished] st'"
    using getpdb_fetched [OF assms(1,2) w [unfolded st0_def out_def]] .
  from write_output_after_makedirs(1) [OF assms(3) om, of out data] w obtain rest where
    rest: "trace st' = trace st0 @ [Call (Op_makedirs p), Call (Op_open out)] @ rest"
    by auto
  have dirs: "node_at fs' (take n (components p)) = Some Dir" if "n \<le> length (components p)" for n
  proof (cases n)
    case 0
    then show ?thesis by (simp add: node_at_def)
  next
    case (Suc m)
    with mkdirs_creates [OF mk, of n] that show ?thesis by simp
  qed
  have kept: "node_at (files st') (take n (components p)) = Some Dir"
    if "n \<le> length (components p)" for n
    using write_output_after_makedirs(2) [OF assms(3) om, of "take n (components p)" out data]
      dirs [OF that] w by simp
  have fg: "files (getpdb env code ftype (Some p) verify st) = files st'"
    unfolding g by (simp add: emit_def)
  have c1: "\<exists>rest. trace (getpdb env code ftype (Some p) verify st) =
            trace st @ evs @ [Log INFO (Writing_output out), Call (Op_makedirs p),
             Call (Op_open out)] @ rest"
    unfolding g using rest by (simp add: emit_def st0_def)
  have c2: "\<forall>op. Call op \<notin> set evs"
    using fetch_hosts_no_call [of _ env code "resolve_type code ftype" verify DATABASE_HOSTS]
      assms(1) by simp
  have c3: "\<forall>n. n \<le> length (components p) \<longrightarrow>
      node_at (files (getpdb env code ftype (Some p) verify st)) (take n (components p)) = Some Dir"
    unfolding fg using kept by blast
  have c4: "\<not> fs_fault env (Op_makedirs p) (files (getpdb env code ftype (Some p) verify st)) \<longrightarrow>
      os_makedirs env p (getpdb env code ftype (Some p) verify st) =
        (Inr (), emit [Call (Op_makedirs p)] (getpdb env code ftype (Some p) verify st))"
    using os_makedirs_existing [OF assms(3) _ c3] by blast
  have c5: "os_makedirs env p s = (Inr (), s') \<and> \<not> fs_fault env (Op_makedirs p) (files s') \<longrightarrow>
      os_makedirs env p s' = (Inr (), emit [Call (Op_makedirs p)] s')"
  proof
    assume a: "os_makedirs env p s = (Inr (), s') \<and> \<not> fs_fault env (Op_makedirs p) (files s')"
    then obtain fs1 where m1: "mkdirs (files s) [] (components p) = Inr fs1" and s': "files s' = fs1"
      by (auto simp: os_makedirs_def Let_def emit_def split: if_splits sum.splits)
    have "\<forall>n. n \<le> length (components p) \<longrightarrow> node_at (files s') (take n (components p)) = Some Dir"
    proof (intro allI impI)
      fix n assume n: "n \<le> length (components p)"
      show "node_at (files s') (take n (components p)) = Some Dir"
      proof (cases n)
        case 0
        then show ?thesis by (simp add: node_at_def)
      next
        case (Suc m)
        with mkdirs_creates [OF m1, of n] n s' show ?thesis by simp
      qed
    qed
    from os_makedirs_existing [OF assms(3) _ this] a
    show "os_makedirs env p s' = (Inr (), emit [Call (Op_makedirs p)] s')" by blast
  qed
  from c1 c2 c3 c4 c5 show ?thesis unfolding out_def by blast
qed

theorem output_directory_created_witness:
  "fetch_hosts (env_only ''https://files.rcsb.org/download/1LYZ.cif.gz'' ''gz:data'')
      ''1LYZ'' (resolve_type ''1LYZ'' None) True DATABASE_HOSTS =
     ([''data''],
      [Log INFO (Fetching_from ''https://files.rcsb.org/download/1LYZ.cif.gz''),
       Request ''rcsb'' ''https://files.rcsb.org/download/1LYZ.cif.gz'' True]) \<and>
   \<not> fs_fault (env_only ''https://files.rcsb.org/download/1LYZ.cif.gz'' ''gz:data'')
      (Op_makedirs ''out/x'') (files initial_state) \<and>
   (\<forall>q c. node_at (files initial_state) q \<noteq> Some (File c)) \<and>
   node_at (files initial_state) [''out''] = None \<and>
   (\<exists>rest. trace (getpdb (env_only ''https://files.rcsb.org/download/1LYZ.cif.gz'' ''gz:data'')
        ''1LYZ'' None (Some ''out/x'') True initial_state) =
      [Log INFO (Fetching_from ''https://files.rcsb.org/download/1LYZ.cif.gz''),
       Request ''rcsb'' ''https://files.rcsb.org/download/1LYZ.cif.gz'' True,
       Log INFO (Writing_output ''out/x/1LYZ.cif''),
       Call (Op_makedirs ''out/x''),
       Call (Op_open ''out/x/1LYZ.cif'')] @ rest) \<and>
   node_at (files (getpdb (env_only ''https://files.rcsb.org/download/1LYZ.cif.gz'' ''gz:data'')
        ''1LYZ'' None (Some ''out/x'') True initial_state)) [''out''] = Some Dir \<and>
   node_at (files (getpdb (env_only ''https://files.rcsb.org/download/1LYZ.cif.gz'' ''gz:data'')
        ''1LYZ'' None (Some ''out/x'') True initial_state)) [''out'', ''x''] = Some Dir \<and>
   os_makedirs (env_only ''https://files.rcsb.org/download/1LYZ.cif.gz'' ''gz:data'') ''out/x''
      (getpdb (env_only ''https://files.rcsb.org/download/1LYZ.cif.gz'' ''gz:data'')
        ''1LYZ'' None (Some ''out/x'') True initial_state) =
     (Inr (), emit [Call (Op_makedirs ''out/x'')]
        (getpdb (env_only ''https://files.rcsb.org/download/1LYZ.cif.gz'' ''gz:data'')
          ''1LYZ'' None (Some ''out/x'') True initial_state))"
proof -
  let ?U = "''https://files.rcsb.org/download/1LYZ.cif.gz''"
  let ?E = "env_only ?U ''gz:data''"
  let ?G = "getpdb ?E ''1LYZ'' None (Some ''out/x'') True initial_state"
  have t: "resolve_type ''1LYZ'' None = ''cif''"
    by (simp add: resolve_type_def FILE_DEFAULT_LARGE_def)
  have out: "output_name ''1LYZ'' ''cif'' (Some ''out/x'') = ''out/x/1LYZ.cif''"
    by (simp add: output_name_def os_path_join_def slash_def str_lower_cif)
  have comp: "components ''out/x'' = [''out'', ''x'']"
    by (simp add: components_def slash_def)
  have a: "fetch_hosts ?E ''1LYZ'' (resolve_type ''1LYZ'' None) True DATABASE_HOSTS =
     ([''data''], [Log INFO (Fetching_from ?U), Request ''rcsb'' ?U True])"
    by (simp add: t DATABASE_HOSTS_def host_defs world_defs str_defs newline_def)
  have b: "[''data''] \<noteq> []" by simp
  have c: "''out/x'' \<noteq> []" by simp
  have d: "\<not> fs_fault ?E (Op_makedirs ''out/x'') (files initial_state)"
    by (simp add: env_only_def)
  have e: "\<forall>q c. node_at (files initial_state) q \<noteq> Some (File c)"
    by (simp add: node_at_def initial_state_def)
  have e': "\<forall>n c. n \<le> length (components ''out/x'') \<longrightarrow>
      node_at (files initial_state) (take n (components ''out/x'')) \<noteq> Some (File c)"
    using e by blast
  have f: "node_at (files initial_state) [''out''] = None"
    by (simp add: node_at_def initial_state_def)
  have nf: "\<not> fs_fault ?E (Op_makedirs ''out/x'') (files ?G)"
    by (simp add: env_only_def)
  note r = output_directory_created [OF a b c d e']
  from r have r1: "\<exists>rest. trace ?G =
      [Log INFO (Fetching_from ?U), Request ''rcsb'' ?U True,
       Log INFO (Writing_output ''out/x/1LYZ.cif''), Call (Op_makedirs ''out/x''),
       Call (Op_open ''out/x/1LYZ.cif'')] @ rest"
    by (simp add: t out initial_state_def)
  from r have r3: "\<forall>n. n \<le> length (components ''out/x'') \<longrightarrow>
      node_at (files ?G) (take n (components ''out/x'')) = Some Dir"
    by blast
  from r3 [rule_format, of 1] have g1: "node_at (files ?G) [''out''] = Some Dir"
    by (simp add: comp)
  from r3 [rule_format, of 2] have g2: "node_at (files ?G) [''out'', ''x''] = Some Dir"
    by (simp add: comp)
  from r nf have g3: "os_makedirs ?E ''out/x'' ?G = (Inr (), emit [Call (Op_makedirs ''out/x'')] ?G)"
    by blast
  show ?thesis
    by (intro conjI) (fact a d e f r1 g1 g2 g3)+
qed

end
